theory Spec2Isabelle
  imports Complex_Main
begin

section \<open>Python values\<close>

text \<open>
  A Python \<open>str\<close> is a sequence of Unicode code points; \<open>len\<close>, slicing and \<open>find\<close>
  count code points.  The full-width punctuation of the segmenter lies outside ASCII, so a
  string is a list of code points here, and \<open>of_ascii\<close> embeds an ASCII literal.
\<close>

type_synonym ustring = "nat list"

definition of_ascii :: "string \<Rightarrow> ustring" where
  "of_ascii s = map of_char s"

text \<open>
  Every handler of the modelled code is \<open>except Exception as e\<close> and looks at the
  exception through \<open>str(e)\<close> only, so an exception is the text it prints as.
\<close>

datatype exn = Exception (str: ustring)

definition ZeroDivisionError :: exn where
  "ZeroDivisionError = Exception (of_ascii ''float division by zero'')"

text \<open>\<open>int(x)\<close> on a float truncates towards zero.\<close>

definition py_int :: "real \<Rightarrow> int" where
  "py_int x = (if 0 \<le> x then \<lfloor>x\<rfloor> else \<lceil>x\<rceil>)"

section \<open>Rate limiter: \<open>ImprovedRateLimiter\<close> (client/kimi_api.py)\<close>

text \<open>
  The fields of the class.  \<open>rate_limit\<close> is the number of requests allowed per window
  (a count, hence an integer) and doubles as the bucket's capacity; \<open>tokens\<close> starts at
  \<open>rate_limit\<close>.  Times are the readings of \<open>time.time()\<close>, taken as real numbers:
  the arithmetic on them is exact here, where the floats of the code round.  Rounding
  can change how many tokens a refill adds, not that the sum is cut at \<open>rate_limit\<close>.
  The lock serialises \<open>acquire\<close>, so one call is one atomic state change.
\<close>

record limiter =
  rate_limit :: int
  time_window :: real
  tokens :: int
  last_refill_time :: real
  max_retries :: int
  retry_delay :: real
  last_request_time :: real

text \<open>\<open>__init__\<close>; \<open>now\<close> is the reading of \<open>time.time()\<close> at construction.\<close>

definition ImprovedRateLimiter :: "int \<Rightarrow> real \<Rightarrow> int \<Rightarrow> real \<Rightarrow> real \<Rightarrow> limiter" where
  "ImprovedRateLimiter rl tw mr rd now =
     \<lparr>rate_limit = rl, time_window = tw, tokens = rl, last_refill_time = now,
      max_retries = mr, retry_delay = rd, last_request_time = 0\<rparr>"

text \<open>
  Lines 60-65 of \<open>acquire\<close>: the refill at time \<open>current_time\<close>.  The caller has already
  excluded \<open>time_window = 0\<close>.
\<close>

definition refill :: "real \<Rightarrow> limiter \<Rightarrow> limiter" where
  "refill current_time s =
     (let time_passed = current_time - last_refill_time s;
          new_tokens = py_int (time_passed / time_window s * real_of_int (rate_limit s))
      in if new_tokens > 0
         then s\<lparr>tokens := min (rate_limit s) (tokens s + new_tokens),
                last_refill_time := current_time\<rparr>
         else s)"

text \<open>
  \<open>acquire\<close>.  The three clock readings of one call are its input: \<open>t1\<close> on entry, \<open>t2\<close>
  after the spacing sleep (read only when the call sleeps) and \<open>t3\<close> when the request time
  is recorded.  Both divisions raise \<open>ZeroDivisionError\<close> on a zero divisor; the state is
  then as it was.
\<close>

definition acquire :: "real \<times> real \<times> real \<Rightarrow> limiter \<Rightarrow> exn + (bool \<times> limiter)" where
  "acquire clock s =
     (case clock of (t1, t2, t3) \<Rightarrow>
        if rate_limit s = 0 then Inl ZeroDivisionError
        else
          let min_interval = time_window s / real_of_int (rate_limit s);
              time_since_last_request = t1 - last_request_time s;
              current_time = (if time_since_last_request < min_interval then t2 else t1)
          in if time_window s = 0 then Inl ZeroDivisionError
             else
               let s1 = refill current_time s
               in if tokens s1 > 0
                  then Inr (True, s1\<lparr>tokens := tokens s1 - 1, last_request_time := t3\<rparr>)
                  else Inr (False, s1))"

text \<open>
  A sequence of \<open>acquire\<close> calls, each with its own clock readings.  A call that raises
  leaves the limiter as it found it.
\<close>

fun acquire_all :: "limiter \<Rightarrow> (real \<times> real \<times> real) list \<Rightarrow> limiter" where
  "acquire_all s [] = s"
| "acquire_all s (clock # clocks) =
     acquire_all (case acquire clock s of Inl e \<Rightarrow> s | Inr (ok, s') \<Rightarrow> s') clocks"

text \<open>The bucket invariant of the data model: \<open>0 \<le> tokens \<le> capacity\<close>.\<close>

definition bucket_ok :: "limiter \<Rightarrow> bool" where
  "bucket_ok s \<longleftrightarrow> 0 \<le> tokens s \<and> tokens s \<le> rate_limit s"

section \<open>Strings, numbers and sleeping: what the gateway asks of the interpreter\<close>

text \<open>
  \<open>str.lower()\<close>.  Only the ASCII letters are mapped here.  Python also lowers letters
  beyond ASCII, but the test made on the result is \<open>"rate_limit" in error_str\<close>, and no
  code point beyond ASCII lowers to a run of that pattern (U+0130 lowers to \<open>i\<close> followed by
  a combining dot, which no letter of the pattern follows), so the test is unaffected.
\<close>

definition lower_cp :: "nat \<Rightarrow> nat" where
  "lower_cp c = (if 65 \<le> c \<and> c \<le> 90 then c + 32 else c)"

definition lower :: "ustring \<Rightarrow> ustring" where
  "lower s = map lower_cp s"

text \<open>\<open>s.startswith(p)\<close> and \<open>p in s\<close>.\<close>

fun startswith :: "ustring \<Rightarrow> ustring \<Rightarrow> bool" where
  "startswith s [] = True"
| "startswith [] (p # ps) = False"
| "startswith (c # cs) (p # ps) = (c = p \<and> startswith cs ps)"

fun contains :: "ustring \<Rightarrow> ustring \<Rightarrow> bool" where
  "contains pat [] = (pat = [])"
| "contains pat (c # cs) = (startswith (c # cs) pat \<or> contains pat cs)"

text \<open>
  What \<open>execute_with_retry\<close> relies on outside the repository, as far as it depends on the
  interpreter and the platform:
  \<^item> \<open>decimal\<close>: the decimal digit value of a code point in the interpreter's Unicode
    database, \<open>None\<close> for every other code point.  \<open>\d\<close> in a \<open>str\<close> pattern matches the
    code points with a value, and \<open>int\<close> reads a digit by it.
  \<^item> \<open>max_str_digits\<close>: the limit of \<open>int\<close> on the number of digits of a string
    (\<open>sys.get_int_max_str_digits()\<close>), \<open>0\<close> where there is none.
  \<^item> \<open>sleep_too_long\<close>: the lengths \<open>time.sleep\<close> refuses on the platform beyond the limit
    of the interpreter's own time type, which is fixed in \<open>sleep_outcome\<close> below.
\<close>

record runtime =
  decimal :: "nat \<Rightarrow> nat option"
  max_str_digits :: nat
  sleep_too_long :: "real \<Rightarrow> bool"

definition is_digit :: "runtime \<Rightarrow> nat \<Rightarrow> bool" where
  "is_digit rt c \<longleftrightarrow> decimal rt c \<noteq> None"

text \<open>
  \<open>re.search(r'after (\d+) seconds', s)\<close> and \<open>group(1)\<close> of the match.  At a position,
  after \<open>after \<close> the group \<open>\d+\<close> first takes the whole run of digits and gives digits
  back one at a time until \<open> seconds\<close> follows; the leftmost position with a match wins.
\<close>

fun greedy_digits :: "nat \<Rightarrow> ustring \<Rightarrow> ustring option" where
  "greedy_digits 0 rest = None"
| "greedy_digits (Suc k) rest =
     (if startswith (drop (Suc k) rest) (of_ascii '' seconds'') then Some (take (Suc k) rest)
      else greedy_digits k rest)"

definition match_after_seconds :: "runtime \<Rightarrow> ustring \<Rightarrow> ustring option" where
  "match_after_seconds rt s =
     (if startswith s (of_ascii ''after '')
      then let rest = drop 6 s
           in greedy_digits (length (takeWhile (is_digit rt) rest)) rest
      else None)"

fun search_after_seconds :: "runtime \<Rightarrow> ustring \<Rightarrow> ustring option" where
  "search_after_seconds rt [] = None"
| "search_after_seconds rt (c # cs) =
     (case match_after_seconds rt (c # cs) of
        Some digits \<Rightarrow> Some digits
      | None \<Rightarrow> search_after_seconds rt cs)"

text \<open>
  \<open>int(s)\<close> on a non-empty run of decimal digits: the number they write in base ten, or a
  \<open>ValueError\<close> when the run is longer than the interpreter's limit.
\<close>

definition int_of_digits :: "runtime \<Rightarrow> ustring \<Rightarrow> nat" where
  "int_of_digits rt ds =
     foldl (\<lambda>n c. 10 * n + (case decimal rt c of Some d \<Rightarrow> d | None \<Rightarrow> 0)) 0 ds"

definition int_ValueError :: exn where
  "int_ValueError = Exception (of_ascii ''Exceeds the limit for integer string conversion'')"

definition py_int_str :: "runtime \<Rightarrow> ustring \<Rightarrow> exn + nat" where
  "py_int_str rt ds =
     (if 0 < max_str_digits rt \<and> max_str_digits rt < length ds then Inl int_ValueError
      else Inr (int_of_digits rt ds))"

text \<open>
  The conversion of an \<open>int\<close> to \<open>float\<close>, which arithmetic between the two makes: from
  \<open>2^1024 - 2^970\<close> on the integer rounds beyond the largest float and \<open>OverflowError\<close>
  is raised.
\<close>

definition int_OverflowError :: exn where
  "int_OverflowError = Exception (of_ascii ''int too large to convert to float'')"

definition float_of_int_limit :: real where
  "float_of_int_limit = 2 ^ 1024 - 2 ^ 970"

text \<open>
  \<open>time.sleep(secs)\<close>: what it raises, or \<open>None\<close> when it sleeps and returns.  The
  length is first converted to the interpreter's time type, 64-bit nanoseconds, which
  raises \<open>OverflowError\<close> out of range; a negative length then raises \<open>ValueError\<close>.
\<close>

definition sleep_OverflowError :: exn where
  "sleep_OverflowError = Exception (of_ascii ''timestamp too large to convert to C _PyTime_t'')"

definition sleep_ValueError :: exn where
  "sleep_ValueError = Exception (of_ascii ''sleep length must be non-negative'')"

definition sleep_outcome :: "runtime \<Rightarrow> real \<Rightarrow> exn option" where
  "sleep_outcome rt secs =
     (if secs * 10 ^ 9 > 2 ^ 63 \<or> secs * 10 ^ 9 < - (2 ^ 63) \<or> sleep_too_long rt secs
      then Some sleep_OverflowError
      else if secs < 0 then Some sleep_ValueError
      else None)"

section \<open>Retrying gateway: \<open>ImprovedRateLimiter.execute_with_retry\<close>\<close>

text \<open>
  What one pass of the loop body meets: \<open>wait_for_token\<close> answers \<open>False\<close>
  (\<open>TokenTimeout\<close>) or raises, or it answers \<open>True\<close> and the wrapped function is called,
  which returns or raises.  The environment gives this for each attempt index.
\<close>

datatype 'a attempt = TokenTimeout | WaitRaises exn | Returns 'a | Raises exn

text \<open>The effects of a run, in order (a sleep is listed when it was slept), and how it ends.\<close>

datatype effect = WaitForToken | Call | Sleep real

datatype 'a outcome = Returned 'a | Raised exn | ReturnedNone

text \<open>\<open>Exception("...")\<close> of line 89: the token wait timed out on the last attempt.\<close>

definition token_timeout :: exn where
  "token_timeout = Exception
     [33719, 21462, 20196, 29260, 36229, 26102, 65292, 35831, 31245, 21518, 20877, 35797]"

text \<open>\<open>"rate_limit" in error_str\<close>, with \<open>error_str = str(e).lower()\<close>.\<close>

definition is_rate_limit :: "exn \<Rightarrow> bool" where
  "is_rate_limit e = contains (of_ascii ''rate_limit'') (lower (str e))"

text \<open>
  Lines 102-113: \<open>wait_time\<close>, or the exception its computation raises.  With a match,
  \<open>int(time_match.group(1)) + 0.5\<close>; without, \<open>max(1.0, self.retry_delay * (2 ** attempt))\<close>,
  where \<open>retry_delay\<close> is a float and the product converts \<open>2 ** attempt\<close> to one.
\<close>

definition wait_time :: "runtime \<Rightarrow> limiter \<Rightarrow> nat \<Rightarrow> exn \<Rightarrow> exn + real" where
  "wait_time rt s attempt e =
     (case search_after_seconds rt (str e) of
        Some digits \<Rightarrow>
          (case py_int_str rt digits of
             Inl x \<Rightarrow> Inl x
           | Inr suggested_wait \<Rightarrow>
               if float_of_int_limit \<le> real suggested_wait then Inl int_OverflowError
               else Inr (real suggested_wait + 0.5))
      | None \<Rightarrow>
          if float_of_int_limit \<le> 2 ^ attempt then Inl int_OverflowError
          else Inr (max 1.0 (retry_delay s * 2 ^ attempt)))"

text \<open>
  The \<open>except Exception as e\<close> block (lines 96-118) at attempt index \<open>attempt\<close>: it sleeps
  \<open>wait_time\<close> and lets the loop go on (\<open>Retry\<close>), raises \<open>e\<close> again (\<open>Reraise\<close>), or
  ends in an exception of its own, raised by the computation of \<open>wait_time\<close> or by
  \<open>time.sleep\<close> (\<open>Fails\<close>), which leaves the function like a raise.
\<close>

datatype handled = Retry real | Reraise | Fails exn

definition except_handler :: "runtime \<Rightarrow> limiter \<Rightarrow> nat \<Rightarrow> exn \<Rightarrow> handled" where
  "except_handler rt s attempt e =
     (if is_rate_limit e \<and> int attempt < max_retries s
      then (case wait_time rt s attempt e of
              Inl x \<Rightarrow> Fails x
            | Inr w \<Rightarrow> (case sleep_outcome rt w of
                          Some x \<Rightarrow> Fails x
                        | None \<Rightarrow> Retry w))
      else Reraise)"

definition prepend :: "effect list \<Rightarrow> 'a outcome \<times> effect list \<Rightarrow> 'a outcome \<times> effect list" where
  "prepend es r = (fst r, es @ snd r)"

text \<open>
  The \<open>for attempt in range(self.max_retries + 1)\<close> loop from index \<open>attempt\<close> with
  \<open>k\<close> passes left.  The sleep after a timed-out token wait is inside the \<open>try\<close>, so
  what it raises goes through the \<open>except\<close> block as well.  When the range is used up
  the function falls off its end and returns \<open>None\<close>.
\<close>

fun attempts_from :: "runtime \<Rightarrow> limiter \<Rightarrow> (nat \<Rightarrow> 'a attempt) \<Rightarrow> nat \<Rightarrow> nat \<Rightarrow> 'a outcome \<times> effect list" where
  "attempts_from rt s env attempt 0 = (ReturnedNone, [])"
| "attempts_from rt s env attempt (Suc k) =
     (let rest = attempts_from rt s env (Suc attempt) k;
          handle = (\<lambda>e es. case except_handler rt s attempt e of
                              Reraise \<Rightarrow> (Raised e, es)
                            | Fails x \<Rightarrow> (Raised x, es)
                            | Retry w \<Rightarrow> prepend (es @ [Sleep w]) rest)
      in case env attempt of
           TokenTimeout \<Rightarrow>
             if int attempt = max_retries s then handle token_timeout [WaitForToken]
             else (case sleep_outcome rt (retry_delay s * (real attempt + 1)) of
                     Some x \<Rightarrow> handle x [WaitForToken]
                   | None \<Rightarrow>
                       prepend [WaitForToken, Sleep (retry_delay s * (real attempt + 1))] rest)
         | WaitRaises e \<Rightarrow> handle e [WaitForToken]
         | Returns v \<Rightarrow> (Returned v, [WaitForToken, Call])
         | Raises e \<Rightarrow> handle e [WaitForToken, Call])"

definition execute_with_retry :: "runtime \<Rightarrow> limiter \<Rightarrow> (nat \<Rightarrow> 'a attempt) \<Rightarrow> 'a outcome \<times> effect list" where
  "execute_with_retry rt s env = attempts_from rt s env 0 (nat (max_retries s + 1))"

text \<open>The number of attempts and of calls of the wrapped function in a run.\<close>

definition attempts_made :: "effect list \<Rightarrow> nat" where
  "attempts_made es = length (filter (\<lambda>x. x = WaitForToken) es)"

definition calls_made :: "effect list \<Rightarrow> nat" where
  "calls_made es = length (filter (\<lambda>x. x = Call) es)"

text \<open>Two wrapped operations used as concrete inputs.\<close>

definition always_raising :: "exn \<Rightarrow> nat \<Rightarrow> unit attempt" where
  "always_raising e attempt = Raises e"

definition raising_once :: "exn \<Rightarrow> nat \<Rightarrow> unit attempt" where
  "raising_once e attempt = (if attempt = 0 then Raises e else Returns ())"

text \<open>
  A concrete runtime for the examples: the decimal digits of Unicode 14.0 (CPython 3.11),
  which come in runs of ten code points for \<open>0\<close> to \<open>9\<close>, listed by the code point of
  their zero; the default digit limit of \<open>int\<close>; no further limit on \<open>time.sleep\<close>.
\<close>

definition decimal_zeros :: "nat list" where
  "decimal_zeros =
     [48, 1632, 1776, 1984, 2406, 2534, 2662, 2790, 2918, 3046, 3174, 3302, 3430, 3558, 3664,
      3792, 3872, 4160, 4240, 6112, 6160, 6470, 6608, 6784, 6800, 6992, 7088, 7232, 7248,
      42528, 43216, 43264, 43472, 43504, 43600, 44016, 65296, 66720, 68912, 69734, 69872,
      69942, 70096, 70384, 70736, 70864, 71248, 71360, 71472, 71904, 72016, 72784, 73040,
      73120, 92768, 92864, 93008, 120782, 120792, 120802, 120812, 120822, 123200, 123632,
      125264, 130032]"

definition unicode_decimal :: "nat \<Rightarrow> nat option" where
  "unicode_decimal c =
     (case filter (\<lambda>z. z \<le> c \<and> c \<le> z + 9) decimal_zeros of
        [] \<Rightarrow> None
      | z # zs \<Rightarrow> Some (c - z))"

definition cpython :: runtime where
  "cpython = \<lparr>decimal = unicode_decimal, max_str_digits = 4300, sleep_too_long = (\<lambda>secs. False)\<rparr>"

text \<open>An error text of the service naming a wait, with the digits as given.\<close>

definition wait_seconds_error :: "ustring \<Rightarrow> exn" where
  "wait_seconds_error digits =
     Exception (of_ascii ''Rate_Limit: retry after '' @ digits @ of_ascii '' seconds'')"

section \<open>Audio queue manager: \<open>AudioManager\<close> (core/audio/audio_manager.py)\<close>

text \<open>
  Where the consumer coroutine \<open>_audio_processor\<close> is suspended: not created
  (\<open>self.task is None\<close>), created and not yet run, at \<open>await self.audio_queue.get()\<close>, in
  the simulated playback \<open>await asyncio.sleep(play_time)\<close> of an item, in the short
  \<open>await asyncio.sleep(0.1)\<close> at the end of the loop body, or finished.
\<close>

datatype task = NoTask | Created | AtGet | Sleeping ustring real | Pausing | Done

record manager =
  audio_queue :: "ustring list"
  current_audio :: "ustring option"
  audio_start_time :: real
  audio_play_duration :: real
  is_playing :: bool
  task :: task

text \<open>
  What a step observes outside the manager: \<open>os.path.exists\<close>, \<open>os.path.getsize\<close>
  (which raises when the file is gone) and \<open>time.time()\<close>.
\<close>

record world =
  path_exists :: "ustring \<Rightarrow> bool"
  path_getsize :: "ustring \<Rightarrow> exn + nat"
  time_now :: real

definition AudioManager :: manager where
  "AudioManager =
     \<lparr>audio_queue = [], current_audio = None, audio_start_time = 0,
      audio_play_duration = 0, is_playing = False, task = NoTask\<rparr>"

definition start :: "manager \<Rightarrow> manager" where
  "start m = (if task m = NoTask \<or> task m = Done then m\<lparr>task := Created\<rparr> else m)"

definition add_to_queue :: "world \<Rightarrow> ustring \<Rightarrow> manager \<Rightarrow> bool \<times> manager" where
  "add_to_queue w audio_path m =
     (if audio_path = [] \<or> \<not> path_exists w audio_path then (False, m)
      else (True, start (m\<lparr>audio_queue := audio_queue m @ [audio_path]\<rparr>)))"

text \<open>The loop \<open>while not self.audio_queue.empty(): get(); task_done()\<close>.\<close>

fun drain :: "ustring list \<Rightarrow> ustring list" where
  "drain [] = []"
| "drain (audio_path # rest) = drain rest"

definition clear_queue :: "manager \<Rightarrow> manager" where
  "clear_queue m = m\<lparr>audio_queue := drain (audio_queue m), current_audio := None,
                      is_playing := False\<rparr>"

text \<open>The dictionary \<open>get_status\<close> returns; a key that is absent is \<open>None\<close>.\<close>

record status =
  playing :: bool
  path :: "ustring option"
  remaining :: "real option"
  elapsed :: "real option"
  total :: "real option"
  queue_size :: nat

definition get_status :: "world \<Rightarrow> manager \<Rightarrow> status" where
  "get_status w m =
     (case current_audio m of
        Some p \<Rightarrow>
          if p \<noteq> [] \<and> is_playing m
          then let elapsed' = time_now w - audio_start_time m;
                   remaining' = max 0 (audio_play_duration m - elapsed')
               in \<lparr>playing = is_playing m, path = Some p, remaining = Some remaining',
                   elapsed = Some elapsed', total = Some (audio_play_duration m),
                   queue_size = length (audio_queue m)\<rparr>
          else \<lparr>playing = False, path = None, remaining = None, elapsed = None, total = None,
                queue_size = length (audio_queue m)\<rparr>
      | None \<Rightarrow> \<lparr>playing = False, path = None, remaining = None, elapsed = None, total = None,
                 queue_size = length (audio_queue m)\<rparr>)"

text \<open>
  One resumption of \<open>_audio_processor\<close>, up to its next suspension.  At \<open>get\<close> with an
  empty queue it stays blocked.  With an item: a missing file is skipped (\<open>continue\<close>);
  otherwise the playback fields are set under the lock, and if \<open>getsize\<close> raises there the
  \<open>except Exception\<close> block resets them.  Each locked block has no suspension inside and
  is one atomic change.
\<close>

definition resume :: "world \<Rightarrow> manager \<Rightarrow> manager" where
  "resume w m =
     (case task m of
        NoTask \<Rightarrow> m
      | Done \<Rightarrow> m
      | Created \<Rightarrow> m\<lparr>task := AtGet\<rparr>
      | AtGet \<Rightarrow>
          (case audio_queue m of
             [] \<Rightarrow> m
           | audio_path # rest \<Rightarrow>
               let m1 = m\<lparr>audio_queue := rest\<rparr>
               in if \<not> path_exists w audio_path then m1
                  else
                    let m2 = m1\<lparr>current_audio := Some audio_path,
                                audio_start_time := time_now w, is_playing := True\<rparr>
                    in (case path_getsize w audio_path of
                          Inl e \<Rightarrow> m2\<lparr>current_audio := None, is_playing := False,
                                      task := Pausing\<rparr>
                        | Inr file_size \<Rightarrow>
                            let estimate_chars = real file_size / 50;
                                play_time = max 2.0 (estimate_chars * 0.2)
                            in m2\<lparr>audio_play_duration := play_time,
                                  task := Sleeping audio_path play_time\<rparr>))
      | Sleeping audio_path play_time \<Rightarrow>
          m\<lparr>current_audio := None, is_playing := False, task := Pausing\<rparr>
      | Pausing \<Rightarrow> m\<lparr>task := AtGet\<rparr>)"

text \<open>The consumer resumed once for each observation of a list.\<close>

fun resumes :: "manager \<Rightarrow> world list \<Rightarrow> manager" where
  "resumes m [] = m"
| "resumes m (w # ws) = resumes (resume w m) ws"

subsection \<open>\<open>stop\<close> and the tasks it leaves behind\<close>

text \<open>
  \<open>stop\<close> is not one step.  After \<open>self.task.cancel()\<close> it is suspended at
  \<open>await self.task\<close> (a task that is not done suspends its awaiter) until the consumer has
  taken the cancellation and finished, and only then runs \<open>self.task = None\<close>; other
  coroutines run in between.  Nor is the consumer stopped by \<open>cancel()\<close> itself: the
  \<open>CancelledError\<close> is thrown into it when it is next resumed.

  So the state of the whole is the manager, whose field \<open>task\<close> is the state of the task
  that \<open>self.task\<close> refers to, together with
  \<^item> whether that task has been cancelled and has not taken the cancellation yet,
  \<^item> how many calls of \<open>stop\<close> are suspended awaiting that task,
  \<^item> how many calls of \<open>stop\<close> can go on, the task they awaited being done, and
  \<^item> the consumer tasks that \<open>self.task\<close> no longer refers to although they were not
    done when the reference was overwritten.  They are still scheduled by the event loop
    and work on the same queue and playback fields.
\<close>

record orphan =
  consumer :: task
  orphan_cancelled :: bool
  orphan_awaited :: nat

record system =
  mgr :: manager
  cancelled :: bool
  awaited :: nat
  resumable :: nat
  orphans :: "orphan list"

definition AudioSystem :: system where
  "AudioSystem =
     \<lparr>mgr = AudioManager, cancelled = False, awaited = 0, resumable = 0, orphans = []\<rparr>"

text \<open>The test \<open>self.task and not self.task.done()\<close>.\<close>

definition running :: "task \<Rightarrow> bool" where
  "running t \<longleftrightarrow> t \<noteq> NoTask \<and> t \<noteq> Done"

text \<open>
  \<open>stop\<close> from its call to its suspension at \<open>await self.task\<close> (lines 37 to 40).
  Without a running task it returns at once and changes nothing.
\<close>

definition stop_cancel :: "system \<Rightarrow> system" where
  "stop_cancel s =
     (if running (task (mgr s)) then s\<lparr>cancelled := True, awaited := awaited s + 1\<rparr> else s)"

text \<open>
  \<open>stop\<close> from its resumption to its return (lines 41 to 44), for a call whose awaited
  task is done: \<open>self.task = None\<close>, whatever \<open>self.task\<close> refers to by now.  A task it
  refers to that is still running is left without a reference, with its pending
  cancellation and the calls awaiting it.
\<close>

definition stop_return :: "system \<Rightarrow> system" where
  "stop_return s =
     (if resumable s = 0 then s
      else
        let s1 = s\<lparr>resumable := resumable s - 1, mgr := (mgr s)\<lparr>task := NoTask\<rparr>\<rparr>
        in if running (task (mgr s))
           then s1\<lparr>orphans := orphans s @
                        [\<lparr>consumer = task (mgr s), orphan_cancelled = cancelled s,
                          orphan_awaited = awaited s\<rparr>],
                    cancelled := False, awaited := 0\<rparr>
           else s1)"

text \<open>
  One resumption of the task \<open>self.task\<close> refers to.  A pending cancellation is thrown in
  at its suspension point: at \<open>get\<close> and in the simulated playback the inner handler of
  \<open>CancelledError\<close> leaves the loop, in the short sleep the outer one does, and a task that
  never ran is cancelled outright.  In each case the task is done, the playback fields
  and the queue are as they were, and the calls of \<open>stop\<close> awaiting it can go on.
\<close>

definition consumer_resume :: "world \<Rightarrow> system \<Rightarrow> system" where
  "consumer_resume w s =
     (if cancelled s \<and> running (task (mgr s))
      then s\<lparr>mgr := (mgr s)\<lparr>task := Done\<rparr>, cancelled := False,
             resumable := resumable s + awaited s, awaited := 0\<rparr>
      else s\<lparr>mgr := resume w (mgr s)\<rparr>)"

text \<open>
  One resumption of the \<open>i\<close>-th task without a reference: the same coroutine, on the same
  manager; only \<open>self.task\<close> is not its own state.
\<close>

definition orphan_resume :: "world \<Rightarrow> nat \<Rightarrow> system \<Rightarrow> system" where
  "orphan_resume w i s =
     (if i < length (orphans s)
      then
        let orph = orphans s ! i
        in if orphan_cancelled orph \<and> running (consumer orph)
           then s\<lparr>orphans := (orphans s)
                      [i := \<lparr>consumer = Done, orphan_cancelled = False, orphan_awaited = 0\<rparr>],
                  resumable := resumable s + orphan_awaited orph\<rparr>
           else
             let m = resume w ((mgr s)\<lparr>task := consumer orph\<rparr>)
             in s\<lparr>mgr := m\<lparr>task := task (mgr s)\<rparr>,
                  orphans := (orphans s)[i := orph\<lparr>consumer := task m\<rparr>]\<rparr>
      else s)"

text \<open>
  The steps of the whole, and a schedule of them, each with what it observes.  \<open>start\<close>,
  \<open>add_to_queue\<close> and \<open>clear_queue\<close> have no suspension inside (the queue is unbounded, the
  lock is never held across one) and are one step each.
\<close>

datatype action =
  DoStart | DoStopCancel | DoStopReturn | DoAdd ustring | DoClear | DoResume | DoResumeOrphan nat

fun step :: "world \<Rightarrow> action \<Rightarrow> system \<Rightarrow> system" where
  "step w DoStart s = s\<lparr>mgr := start (mgr s)\<rparr>"
| "step w DoStopCancel s = stop_cancel s"
| "step w DoStopReturn s = stop_return s"
| "step w (DoAdd audio_path) s = s\<lparr>mgr := snd (add_to_queue w audio_path (mgr s))\<rparr>"
| "step w DoClear s = s\<lparr>mgr := clear_queue (mgr s)\<rparr>"
| "step w DoResume s = consumer_resume w s"
| "step w (DoResumeOrphan i) s = orphan_resume w i s"

fun run :: "system \<Rightarrow> (world \<times> action) list \<Rightarrow> system" where
  "run s [] = s"
| "run s ((w, a) # rest) = run (step w a s) rest"

text \<open>The items whose playback is being simulated: one for each consumer in its long sleep.\<close>

fun played :: "task \<Rightarrow> ustring list" where
  "played (Sleeping audio_path play_time) = [audio_path]"
| "played NoTask = []"
| "played Created = []"
| "played AtGet = []"
| "played Pausing = []"
| "played Done = []"

definition in_playback :: "system \<Rightarrow> ustring list" where
  "in_playback s = played (task (mgr s)) @ concat (map (\<lambda>orph. played (consumer orph)) (orphans s))"

text \<open>A world in which every file exists and has 1000 bytes.\<close>

definition all_files :: world where
  "all_files = \<lparr>path_exists = (\<lambda>p. True), path_getsize = (\<lambda>p. Inr 1000), time_now = 0\<rparr>"

definition no_files :: world where
  "no_files = \<lparr>path_exists = (\<lambda>p. False),
                path_getsize = (\<lambda>p. Inl (Exception (of_ascii ''No such file or directory''))),
                time_now = 0\<rparr>"

text \<open>
  A call of \<open>stop\<close> overtaken by \<open>add_to_queue\<close>.  The item \<open>a.mp3\<close> is queued and its
  playback begins; \<open>stop\<close> cancels the consumer and waits; the consumer takes the
  cancellation and finishes; before \<open>stop\<close> is resumed, \<open>add_to_queue\<close> of \<open>b.mp3\<close> finds
  \<open>self.task.done()\<close> and creates a second consumer; \<open>stop\<close> goes on and sets
  \<open>self.task = None\<close>; the second consumer runs and plays \<open>b.mp3\<close>; then
  \<open>add_to_queue\<close> of \<open>c.mp3\<close> finds \<open>self.task is None\<close> and creates a third consumer, which
  plays \<open>c.mp3\<close>.  The event loop resumes \<open>stop\<close> by a callback it queues when the
  consumer finishes, behind the coroutines that were ready by then: one of them calling
  \<open>add_to_queue\<close> is what the schedule needs.
\<close>

definition overtaken_stop :: "(world \<times> action) list" where
  "overtaken_stop =
     [(all_files, DoAdd (of_ascii ''a.mp3'')), (all_files, DoResume), (all_files, DoResume),
      (all_files, DoStopCancel), (all_files, DoResume),
      (all_files, DoAdd (of_ascii ''b.mp3'')),
      (all_files, DoStopReturn),
      (all_files, DoResumeOrphan 0), (all_files, DoResumeOrphan 0),
      (all_files, DoAdd (of_ascii ''c.mp3'')), (all_files, DoResume), (all_files, DoResume)]"

section \<open>Text segmenter (utils/text_cleaner.py and the chunk branch of \<open>event_generator\<close>)\<close>

text \<open>
  \<open>text.find(char)\<close> for a one-character \<open>char\<close>: the index of its first occurrence, or
  \<open>-1\<close>.
\<close>

definition str_find :: "nat \<Rightarrow> ustring \<Rightarrow> int" where
  "str_find c text =
     (if c \<in> set text then int (length (takeWhile (\<lambda>x. x \<noteq> c) text)) else - 1)"

text \<open>
  \<open>end_chars\<close> of \<open>find_sentence_end\<close>: the full-width full stop, question mark and
  exclamation mark (U+3002, U+FF1F, U+FF01) and the ASCII \<open>.\<close>, \<open>?\<close>, \<open>!\<close>.
\<close>

definition end_chars :: "nat list" where
  "end_chars = [12290, 65311, 65281, 46, 63, 33]"

definition find_sentence_end :: "ustring \<Rightarrow> int" where
  "find_sentence_end text =
     (let positions = map (\<lambda>char. str_find char text) end_chars;
          valid_positions = filter (\<lambda>pos. pos \<noteq> - 1) positions
      in if valid_positions \<noteq> [] then min_list valid_positions
         else if length text > 50 then int (length text) - 1
         else - 1)"

text \<open>
  The segmenter step of \<open>event_generator\<close> (router.py, lines 208-214, with TTS enabled):
  from the accumulated text, the sentence to synthesise and the text kept for later, or
  \<open>None\<close> when nothing is cut off.
\<close>

definition feed :: "ustring \<Rightarrow> (ustring \<times> ustring) option" where
  "feed accumulated_text =
     (if accumulated_text = [] then None
      else let sentence_end = find_sentence_end accumulated_text
           in if sentence_end > 10
              then Some (take (nat (sentence_end + 1)) accumulated_text,
                         drop (nat (sentence_end + 1)) accumulated_text)
              else None)"

text \<open>The position of the earliest character of \<open>end_chars\<close> in a text that has one.\<close>

definition first_end :: "ustring \<Rightarrow> nat" where
  "first_end text = length (takeWhile (\<lambda>x. x \<notin> set end_chars) text)"

subsection \<open>\<open>split_text_for_tts\<close>\<close>

text \<open>
  \<open>str.strip()\<close> removes the characters for which \<open>str.isspace()\<close> holds from both ends.
\<close>

definition is_space :: "nat \<Rightarrow> bool" where
  "is_space c \<longleftrightarrow>
     (9 \<le> c \<and> c \<le> 13) \<or> (28 \<le> c \<and> c \<le> 32) \<or> c = 133 \<or> c = 160 \<or> c = 5760
     \<or> (8192 \<le> c \<and> c \<le> 8202) \<or> c = 8232 \<or> c = 8233 \<or> c = 8239 \<or> c = 8287
     \<or> c = 12288"

definition strip :: "ustring \<Rightarrow> ustring" where
  "strip s = rev (dropWhile is_space (rev (dropWhile is_space s)))"




text \<open>\<open>[part[i:i+n] for i in range(0, len(part), n)]\<close> for a positive step \<open>n\<close>.\<close>

function chunks :: "nat \<Rightarrow> ustring \<Rightarrow> ustring list" where
  "chunks n part =
     (if n = 0 \<or> part = [] then [] else take n part # chunks n (drop n part))"
  by pat_completeness auto
termination
  by (relation "measure (\<lambda>(n, part). length part)") auto

declare chunks.simps [simp del]

definition range_ValueError :: exn where
  "range_ValueError = Exception (of_ascii ''range() arg 3 must not be zero'')"

text \<open>
  The idiom the function uses three times to close the current paragraph:
  \<open>if current_paragraph: paragraphs.append(current_paragraph.strip())\<close>, followed by
  \<open>current_paragraph = ""\<close>.
\<close>

definition save_current :: "ustring list \<times> ustring \<Rightarrow> ustring list \<times> ustring" where
  "save_current st = (if snd st \<noteq> [] then (fst st @ [strip (snd st)], []) else (fst st, []))"

text \<open>
  The inner loop over \<open>comma_parts\<close> (lines 95-112); the state is \<open>paragraphs\<close> and
  \<open>current_paragraph\<close>.  \<open>range\<close> raises on a zero step and is empty on a negative one.
\<close>

fun comma_loop :: "int \<Rightarrow> ustring list \<Rightarrow> ustring list \<times> ustring \<Rightarrow> exn + ustring list \<times> ustring" where
  "comma_loop max_length [] st = Inr st"
| "comma_loop max_length (part # parts) (paragraphs, current_paragraph) =
     (if strip part = [] then comma_loop max_length parts (paragraphs, current_paragraph)
      else
        let st1 = (if int (length current_paragraph) + int (length part) > max_length
                   then save_current (paragraphs, current_paragraph)
                   else (paragraphs, current_paragraph))
        in if int (length part) > max_length
           then (if max_length = 0 then Inl range_ValueError
                 else if max_length < 0 then comma_loop max_length parts st1
                 else comma_loop max_length parts
                        (fst st1 @ map strip (chunks (nat max_length) part), snd st1))
           else comma_loop max_length parts (fst st1, snd st1 @ part))"



text \<open>A text with its whitespace deleted.\<close>

definition nonspace :: "ustring \<Rightarrow> ustring" where
  "nonspace s = filter (\<lambda>c. \<not> is_space c) s"

text \<open>
  \<open>out\<close> is \<open>src\<close> with some of its whitespace characters deleted: going through
  \<open>src\<close>, each character is either the next one of \<open>out\<close>, or it is whitespace and
  left out.  Nothing is added, moved or changed.
\<close>

fun ws_deleted :: "ustring \<Rightarrow> ustring \<Rightarrow> bool" where
  "ws_deleted out [] = (out = [])"
| "ws_deleted out (c # src) =
     ((case out of [] \<Rightarrow> False | x # out' \<Rightarrow> x = c \<and> ws_deleted out' src)
      \<or> (is_space c \<and> ws_deleted out src))"


section \<open>Chat orchestrator: \<open>KimiAPI.process_stream_chat\<close> (client/kimi_api.py)\<close>

text \<open>
  A tool call as the service returns it: \<open>tool_call.id\<close>, \<open>tool_call.function.name\<close> and
  \<open>tool_call.function.arguments\<close>, the last one a string that \<open>json.loads\<close> has to parse.
\<close>

record tool_call =
  tc_id :: ustring
  tc_name :: ustring
  tc_arguments :: ustring

text \<open>
  \<open>choice.message\<close> of a completion, and the choice with its \<open>finish_reason\<close>.  A
  completion is its list \<open>choices\<close>.
\<close>

record assistant_message =
  am_content :: "ustring option"
  am_tool_calls :: "tool_call list option"

record choice =
  finish_reason :: ustring
  message :: assistant_message

text \<open>
  The entries of \<open>messages\<close>: a plain message with role and content, the dump of the
  assistant's tool-call request, and a tool-result message.
\<close>

datatype message =
    Message ustring ustring
  | AssistantDump assistant_message
  | ToolMessage (tool_call_id: ustring) (tool_name: ustring) (tool_content: ustring)

text \<open>
  What a tool yields before \<open>json.dumps\<close>: \<open>search_impl\<close> hands back the parsed
  arguments, an unknown name gives a text.
\<close>

datatype 'j tool_result = Payload 'j | Text ustring

text \<open>
  A streamed chunk is the list of \<open>delta.content\<close> of its choices; the stream is its
  chunks and, if the iteration breaks off, the exception raised after them.
\<close>

record stream =
  st_chunks :: "ustring option list list"
  st_error :: "exn option"

text \<open>
  What the turn calls outside the class: the two calls made through
  \<open>execute_with_retry\<close> (the probe with the tool definitions and the streaming call, each
  on the messages it is given, and the plain second call of \<open>process_chat_request\<close>),
  \<open>json.loads\<close> and \<open>json.dumps\<close>.
\<close>

record 'j service =
  probe :: "message list \<Rightarrow> exn + choice list"
  stream_call :: "message list \<Rightarrow> exn + stream"
  complete :: "message list \<Rightarrow> exn + choice list"
  loads :: "ustring \<Rightarrow> exn + 'j"
  dumps :: "'j tool_result \<Rightarrow> ustring"

text \<open>The events the generator yields, each with the response id.\<close>

datatype event =
    Start ustring
  | ToolCall ustring ustring
  | Chunk ustring ustring
  | Error ustring ustring
  | End ustring

definition IndexError :: exn where
  "IndexError = Exception (of_ascii ''list index out of range'')"

definition TypeError :: exn where
  "TypeError = Exception ([39] @ of_ascii ''NoneType'' @ [39] @ of_ascii '' object is not iterable'')"

text \<open>The fixed texts: the notice of the \<open>tool_call\<close> event and the prefix of the error text.\<close>

definition searching_notice :: ustring where
  "searching_notice = [27491, 22312, 25628, 32034, 30456, 20851, 20449, 24687, 46, 46, 46]"

definition api_error_msg :: "exn \<Rightarrow> ustring" where
  "api_error_msg e = [65, 80, 73, 35843, 29992, 38169, 35823, 58, 32] @ str e"

definition web_search :: ustring where
  "web_search = of_ascii ''$web_search''"

text \<open>\<open>f"Error: unable to find tool by name '{tool_call_name}'"\<close>.\<close>

definition unknown_tool_error :: "ustring \<Rightarrow> ustring" where
  "unknown_tool_error tool_call_name =
     of_ascii ''Error: unable to find tool by name '' @ [39] @ tool_call_name @ [39]"

definition search_impl :: "'j \<Rightarrow> 'j tool_result" where
  "search_impl arguments = Payload arguments"

text \<open>
  The loop over \<open>choice.message.tool_calls\<close> (lines 321-336).  The arguments are parsed
  before the name is looked at; if that raises, the messages appended so far stay.
\<close>

fun tool_calls_loop :: "'j service \<Rightarrow> tool_call list \<Rightarrow> message list \<Rightarrow> exn option \<times> message list" where
  "tool_calls_loop sv [] messages = (None, messages)"
| "tool_calls_loop sv (tc # tcs) messages =
     (case loads sv (tc_arguments tc) of
        Inl e \<Rightarrow> (Some e, messages)
      | Inr tool_call_arguments \<Rightarrow>
          let tool_result = (if tc_name tc = web_search then search_impl tool_call_arguments
                             else Text (unknown_tool_error (tc_name tc)))
          in tool_calls_loop sv tcs
               (messages @ [ToolMessage (tc_id tc) (tc_name tc) (dumps sv tool_result)]))"

text \<open>
  The loop over the stream (lines 359-366): a chunk event for every non-empty
  \<open>delta.content\<close>; \<open>chunk.choices[0]\<close> raises on a chunk without choices.
\<close>

fun stream_events :: "ustring \<Rightarrow> ustring option list list \<Rightarrow> exn option \<Rightarrow> event list \<times> exn option" where
  "stream_events response_id [] err = ([], err)"
| "stream_events response_id (chunk # later) err =
     (case chunk of
        [] \<Rightarrow> ([], Some IndexError)
      | content # others \<Rightarrow>
          let rest = stream_events response_id later err
          in (case content of
                None \<Rightarrow> rest
              | Some c \<Rightarrow> if c \<noteq> [] then (Chunk response_id c # fst rest, snd rest) else rest))"

definition final_stream :: "'j service \<Rightarrow> ustring \<Rightarrow> message list \<Rightarrow> event list \<times> exn option" where
  "final_stream sv response_id messages =
     (case stream_call sv messages of
        Inl e \<Rightarrow> ([], Some e)
      | Inr s \<Rightarrow> stream_events response_id (st_chunks s) (st_error s))"

text \<open>
  The body of the inner \<open>try\<close> (lines 299-366): the events yielded, the exception that
  ends it if there is one, and \<open>messages\<close> as the body leaves the list.
\<close>

definition try_body :: "'j service \<Rightarrow> ustring \<Rightarrow> message list \<Rightarrow> event list \<times> exn option \<times> message list" where
  "try_body sv response_id messages =
     (case probe sv messages of
        Inl e \<Rightarrow> ([], Some e, messages)
      | Inr choices \<Rightarrow>
          (case choices of
             [] \<Rightarrow> ([], Some IndexError, messages)
           | choice # others \<Rightarrow>
               if finish_reason choice = of_ascii ''tool_calls''
               then
                 let notice = ToolCall response_id searching_notice;
                     messages1 = messages @ [AssistantDump (message choice)]
                 in (case am_tool_calls (message choice) of
                       None \<Rightarrow> ([notice], Some TypeError, messages1)
                     | Some tcs \<Rightarrow>
                         (case tool_calls_loop sv tcs messages1 of
                            (Some e, messages2) \<Rightarrow> ([notice], Some e, messages2)
                          | (None, messages2) \<Rightarrow>
                              let r = final_stream sv response_id messages2
                              in (notice # fst r, snd r, messages2)))
               else
                 let r = final_stream sv response_id messages
                 in (fst r, snd r, messages)))"

text \<open>
  \<open>process_stream_chat\<close>: \<open>start\<close>, the body, the \<open>error\<close> event of the inner
  \<open>except Exception\<close> if the body raised, and \<open>end\<close> from the \<open>finally\<close> block.  The
  result is the events in order and the message list as the turn leaves it.  (The outer
  \<open>except\<close> would only catch what the inner handler raises, which is nothing.)
\<close>

definition process_stream_chat :: "'j service \<Rightarrow> ustring \<Rightarrow> message list \<Rightarrow> event list \<times> message list" where
  "process_stream_chat sv response_id messages =
     (case try_body sv response_id messages of
        (events, None, messages') \<Rightarrow>
          (Start response_id # events @ [End response_id], messages')
      | (events, Some e, messages') \<Rightarrow>
          (Start response_id # events @ [Error response_id (api_error_msg e)]
             @ [End response_id], messages'))"

text \<open>
  \<open>process_chat_request\<close>, the non-streaming turn with the same tool loop: the content
  returned or the exception, which its handler prints and raises again, and the message
  list as the call leaves it.
\<close>

definition process_chat_request :: "'j service \<Rightarrow> message list \<Rightarrow> (exn + ustring option) \<times> message list" where
  "process_chat_request sv messages =
     (case probe sv messages of
        Inl e \<Rightarrow> (Inl e, messages)
      | Inr choices \<Rightarrow>
          (case choices of
             [] \<Rightarrow> (Inl IndexError, messages)
           | choice # others \<Rightarrow>
               if finish_reason choice = of_ascii ''tool_calls''
               then
                 let messages1 = messages @ [AssistantDump (message choice)]
                 in (case am_tool_calls (message choice) of
                       None \<Rightarrow> (Inl TypeError, messages1)
                     | Some tcs \<Rightarrow>
                         (case tool_calls_loop sv tcs messages1 of
                            (Some e, messages2) \<Rightarrow> (Inl e, messages2)
                          | (None, messages2) \<Rightarrow>
                              (case complete sv messages2 of
                                 Inl e \<Rightarrow> (Inl e, messages2)
                               | Inr [] \<Rightarrow> (Inl IndexError, messages2)
                               | Inr (final # others') \<Rightarrow>
                                   (Inr (am_content (message final)), messages2))))
               else (Inr (am_content (message choice)), messages)))"

text \<open>\<open>stream_chat\<close>: the system prompt, the history and the user's message.\<close>

definition stream_chat :: "'j service \<Rightarrow> ustring \<Rightarrow> ustring \<Rightarrow> message list \<Rightarrow> event list \<times> message list" where
  "stream_chat sv response_id msg history =
     process_stream_chat sv response_id
       ([Message (of_ascii ''system'') ([20320, 26159] @ of_ascii '' Kimi'')] @ history
        @ [Message (of_ascii ''user'') msg])"

section \<open>Transport: \<open>event_generator\<close> of the streaming endpoint (api/router.py)\<close>

text \<open>The server-sent events written to the client, by their \<open>type\<close>.\<close>

datatype sse =
    SseChunk ustring
  | SseAudio ustring
  | SseToolCall ustring
  | SseError ustring
  | SseEnd "ustring option"

text \<open>
  The loop \<open>async for chunk in kimi_api_client.stream_chat(...)\<close> over the events of the
  orchestrator, with \<open>accumulated_text\<close> as state.  \<open>synthesize prefix text\<close> stands for
  the synthesis of a piece of text and the move of the file (\<open>text_to_speech\<close>,
  \<open>os.makedirs\<close>, \<open>os.rename\<close>): the audio URL, \<open>None\<close> when no file was produced, or the
  exception one of the calls raised, which leaves the generator.  An event of type
  \<open>start\<close> matches no branch.  After \<open>error\<close> and after \<open>end\<close> the generator returns.
\<close>

fun event_generator :: "(ustring \<Rightarrow> ustring \<Rightarrow> exn + ustring option) \<Rightarrow> bool \<Rightarrow> event list \<Rightarrow> ustring \<Rightarrow> sse list \<times> exn option" where
  "event_generator synthesize tts_enabled [] accumulated_text = ([], None)"
| "event_generator synthesize tts_enabled (Chunk rid content # rest) accumulated_text =
     (let acc = accumulated_text @ content;
          continue = (\<lambda>out acc'. let r = event_generator synthesize tts_enabled rest acc'
                                  in (SseChunk content # out @ fst r, snd r))
      in if tts_enabled \<and> acc \<noteq> []
         then (case feed acc of
                 None \<Rightarrow> continue [] acc
               | Some (sentence, acc') \<Rightarrow>
                   (case synthesize (of_ascii ''chunk_'') sentence of
                      Inl e \<Rightarrow> ([SseChunk content], Some e)
                    | Inr None \<Rightarrow> continue [] acc'
                    | Inr (Some audio_url) \<Rightarrow> continue [SseAudio audio_url] acc'))
         else continue [] acc)"
| "event_generator synthesize tts_enabled (ToolCall rid content # rest) accumulated_text =
     (let r = event_generator synthesize tts_enabled rest accumulated_text
      in (SseToolCall searching_notice # fst r, snd r))"
| "event_generator synthesize tts_enabled (Error rid msg # rest) accumulated_text =
     ([SseError msg], None)"
| "event_generator synthesize tts_enabled (End rid # rest) accumulated_text =
     (if tts_enabled \<and> accumulated_text \<noteq> []
      then (case synthesize (of_ascii ''final_'') accumulated_text of
              Inl e \<Rightarrow> ([], Some e)
            | Inr None \<Rightarrow> ([SseEnd None], None)
            | Inr (Some audio_url) \<Rightarrow> ([SseAudio audio_url, SseEnd (Some audio_url)], None))
      else ([SseEnd None], None))"
| "event_generator synthesize tts_enabled (Start rid # rest) accumulated_text =
     event_generator synthesize tts_enabled rest accumulated_text"

text \<open>The classes of events used in the statements below.\<close>

fun is_progress :: "event \<Rightarrow> bool" where
  "is_progress (ToolCall rid c) = True"
| "is_progress (Chunk rid c) = True"
| "is_progress e = False"

fun is_sse_end :: "sse \<Rightarrow> bool" where
  "is_sse_end (SseEnd u) = True"
| "is_sse_end e = False"

fun is_sse_error :: "sse \<Rightarrow> bool" where
  "is_sse_error (SseError m) = True"
| "is_sse_error e = False"

text \<open>
  What the tool loop appends for a call: a tool message with the call's id and name, and
  for a name other than \<open>$web_search\<close> the dumped error text as content.
\<close>

definition tool_reply :: "'j service \<Rightarrow> tool_call \<Rightarrow> message \<Rightarrow> bool" where
  "tool_reply sv tc m \<longleftrightarrow>
     (\<exists>c. m = ToolMessage (tc_id tc) (tc_name tc) c)
   \<and> (tc_name tc \<noteq> web_search \<longrightarrow>
        m = ToolMessage (tc_id tc) (tc_name tc) (dumps sv (Text (unknown_tool_error (tc_name tc)))))"

text \<open>The \<open>error\<close> event of the inner handler, if the body ended in an exception.\<close>

definition error_events :: "ustring \<Rightarrow> exn option \<Rightarrow> event list" where
  "error_events response_id err =
     (case err of None \<Rightarrow> [] | Some e \<Rightarrow> [Error response_id (api_error_msg e)])"

text \<open>
  Concrete services for the examples.  Parsed JSON is kept as its text; the decoder accepts
  \<open>{}\<close> and answers any other text as \<open>json.loads\<close> answers \<open>{\<close>.
\<close>

definition JSONDecodeError :: exn where
  "JSONDecodeError = Exception
     (of_ascii ''Expecting property name enclosed in double quotes: line 1 column 2 (char 1)'')"

definition decode_braces :: "ustring \<Rightarrow> exn + ustring" where
  "decode_braces s =
     (if s = of_ascii ''{}'' then Inr s
      else Inl JSONDecodeError)"

fun dump_text :: "ustring tool_result \<Rightarrow> ustring" where
  "dump_text (Payload j) = j"
| "dump_text (Text t) = [34] @ t @ [34]"

definition hello_stream :: stream where
  "hello_stream = \<lparr>st_chunks = [[Some (of_ascii ''Hello'')], [None], [Some (of_ascii '' there'')]],
                    st_error = None\<rparr>"

definition lookup_call :: "ustring \<Rightarrow> tool_call" where
  "lookup_call args = \<lparr>tc_id = of_ascii ''call_1'', tc_name = of_ascii ''lookup'',
                        tc_arguments = args\<rparr>"

definition tool_choice :: "ustring \<Rightarrow> choice" where
  "tool_choice args =
     \<lparr>finish_reason = of_ascii ''tool_calls'',
      message = \<lparr>am_content = None, am_tool_calls = Some [lookup_call args]\<rparr>\<rparr>"

definition stop_choice :: choice where
  "stop_choice = \<lparr>finish_reason = of_ascii ''stop'',
                   message = \<lparr>am_content = Some (of_ascii ''Hello there''), am_tool_calls = None\<rparr>\<rparr>"

definition tool_service :: "ustring \<Rightarrow> ustring service" where
  "tool_service args =
     \<lparr>probe = (\<lambda>messages. Inr [tool_choice args]),
      stream_call = (\<lambda>messages. Inr hello_stream),
      complete = (\<lambda>messages. Inr [stop_choice]),
      loads = decode_braces, dumps = dump_text\<rparr>"

definition plain_service :: "ustring service" where
  "plain_service =
     \<lparr>probe = (\<lambda>messages. Inr [stop_choice]),
      stream_call = (\<lambda>messages. Inr hello_stream),
      complete = (\<lambda>messages. Inr [stop_choice]),
      loads = decode_braces, dumps = dump_text\<rparr>"

definition failing_service :: "ustring service" where
  "failing_service =
     \<lparr>probe = (\<lambda>messages. Inl (Exception (of_ascii ''Connection error.''))),
      stream_call = (\<lambda>messages. Inr hello_stream),
      complete = (\<lambda>messages. Inr [stop_choice]),
      loads = decode_braces, dumps = dump_text\<rparr>"

definition no_synthesis :: "ustring \<Rightarrow> ustring \<Rightarrow> exn + ustring option" where
  "no_synthesis prefix text = Inr None"

section \<open>Properties of the rate limiter\<close>

lemma refill_rate_limit [simp]: "rate_limit (refill t s) = rate_limit s"
  by (simp add: refill_def Let_def)

lemma refill_bucket_ok: "bucket_ok s \<Longrightarrow> bucket_ok (refill t s)"
  by (auto simp: refill_def bucket_ok_def Let_def)

lemma refill_tokens_mono: "bucket_ok s \<Longrightarrow> tokens s \<le> tokens (refill t s)"
  by (auto simp: refill_def bucket_ok_def Let_def)

lemma acquire_rate_limit:
  "acquire clock s = Inr (ok, s') \<Longrightarrow> rate_limit s' = rate_limit s"
  by (auto simp: acquire_def Let_def split: prod.splits if_splits)

lemma acquire_bucket_ok:
  "bucket_ok s \<Longrightarrow> acquire clock s = Inr (ok, s') \<Longrightarrow> bucket_ok s'"
proof -
  assume ok: "bucket_ok s" and run: "acquire clock s = Inr (ok, s')"
  obtain t1 t2 t3 where clock: "clock = (t1, t2, t3)"
    by (cases clock) auto
  define t where "t = (if t1 - last_request_time s < time_window s / real_of_int (rate_limit s)
                       then t2 else t1)"
  have r: "bucket_ok (refill t s)"
    using ok by (rule refill_bucket_ok)
  from run clock have "s' = (if tokens (refill t s) > 0
      then (refill t s)\<lparr>tokens := tokens (refill t s) - 1, last_request_time := t3\<rparr>
      else refill t s)"
    by (auto simp: acquire_def Let_def t_def split: if_splits)
  with r show "bucket_ok s'"
    by (auto simp: bucket_ok_def)
qed

lemma acquire_all_bucket_ok: "bucket_ok s \<Longrightarrow> bucket_ok (acquire_all s clocks)"
proof (induction clocks arbitrary: s)
  case Nil
  then show ?case by simp
next
  case (Cons clock clocks)
  show ?case
  proof (cases "acquire clock s")
    case (Inl e)
    with Cons show ?thesis by simp
  next
    case (Inr r)
    obtain ok s' where r: "r = (ok, s')" by (cases r) auto
    with Inr Cons.prems have "bucket_ok s'"
      by (auto intro: acquire_bucket_ok)
    with Inr r Cons.IH show ?thesis by simp
  qed
qed

lemma acquire_consumes:
  assumes run: "acquire (t1, t2, t3) s = Inr (ok, s')"
  shows "\<exists>t. (ok \<longleftrightarrow> 1 \<le> tokens (refill t s))
            \<and> tokens s' = (if ok then tokens (refill t s) - 1 else tokens (refill t s))"
proof -
  define t where "t = (if t1 - last_request_time s < time_window s / real_of_int (rate_limit s)
                       then t2 else t1)"
  from run have "(ok \<longleftrightarrow> 1 \<le> tokens (refill t s))
      \<and> tokens s' = (if ok then tokens (refill t s) - 1 else tokens (refill t s))"
    by (auto simp: acquire_def Let_def t_def split: if_splits)
  then show ?thesis ..
qed

text \<open>
  C2.  From a freshly constructed limiter of non-negative capacity, after any sequence of
  \<open>acquire\<close> calls with arbitrary clock readings the token count lies in
  \<open>[0, capacity]\<close>.  In one call the refill never lifts the count above the capacity, and
  the call takes a token (and answers \<open>True\<close>) exactly when the refilled count is at least
  one; the count then drops by exactly one, otherwise it keeps the refilled value.
\<close>

theorem acquire_tokens_within_capacity:
  assumes "0 \<le> rl"
  shows "bucket_ok (acquire_all (ImprovedRateLimiter rl tw mr rd now) clocks)
       \<and> (\<forall>s t. bucket_ok s \<longrightarrow> tokens (refill t s) \<le> rate_limit s \<and> 0 \<le> tokens (refill t s))
       \<and> (\<forall>s t1 t2 t3 ok s'. bucket_ok s \<longrightarrow> acquire (t1, t2, t3) s = Inr (ok, s') \<longrightarrow>
             bucket_ok s'
           \<and> (\<exists>t. (ok \<longleftrightarrow> 1 \<le> tokens (refill t s))
                \<and> tokens s' = (if ok then tokens (refill t s) - 1 else tokens (refill t s))))"
proof (intro conjI allI impI)
  have "bucket_ok (ImprovedRateLimiter rl tw mr rd now)"
    using assms by (simp add: bucket_ok_def ImprovedRateLimiter_def)
  then show "bucket_ok (acquire_all (ImprovedRateLimiter rl tw mr rd now) clocks)"
    by (rule acquire_all_bucket_ok)
next
  fix s t assume "bucket_ok s"
  then have "bucket_ok (refill t s)" by (rule refill_bucket_ok)
  then show "tokens (refill t s) \<le> rate_limit s" and "0 \<le> tokens (refill t s)"
    by (simp_all add: bucket_ok_def)
next
  fix s t1 t2 t3 ok s'
  assume "bucket_ok s" and "acquire (t1, t2, t3) s = Inr (ok, s')"
  then show "bucket_ok s'" by (rule acquire_bucket_ok)
next
  fix s t1 t2 t3 ok s'
  assume "bucket_ok s" and "acquire (t1, t2, t3) s = Inr (ok, s')"
  then show "\<exists>t. (ok \<longleftrightarrow> 1 \<le> tokens (refill t s))
            \<and> tokens s' = (if ok then tokens (refill t s) - 1 else tokens (refill t s))"
    using acquire_consumes by blast
qed


text \<open>A run of the limiter that the statement above covers, evaluated.\<close>

theorem acquire_tokens_within_capacity_witness:
  "(0::int) \<le> 2
   \<and> bucket_ok (ImprovedRateLimiter 2 1 3 1 0)
   \<and> acquire (0, 1/10, 1/10) (ImprovedRateLimiter 2 1 3 1 0)
       = Inr (True, (ImprovedRateLimiter 2 1 3 1 0)\<lparr>tokens := 1, last_request_time := 1/10\<rparr>)
   \<and> bucket_ok (acquire_all (ImprovedRateLimiter 2 1 3 1 0) [(0, 1/10, 1/10), (1/5, 1/2, 1/2)])
   \<and> bucket_ok ((ImprovedRateLimiter 2 1 3 1 0)\<lparr>tokens := 1, last_request_time := 1/10\<rparr>)"
proof -
  have run: "acquire (0, 1/10, 1/10) (ImprovedRateLimiter 2 1 3 1 0)
       = Inr (True, (ImprovedRateLimiter 2 1 3 1 0)\<lparr>tokens := 1, last_request_time := 1/10\<rparr>)"
    by (simp add: acquire_def refill_def ImprovedRateLimiter_def py_int_def Let_def)
  have init: "bucket_ok (ImprovedRateLimiter 2 1 3 1 0)"
    by (simp add: bucket_ok_def ImprovedRateLimiter_def)
  have le: "(0::int) \<le> 2" by simp
  note main = acquire_tokens_within_capacity
    [OF le, of 1 3 1 0 "[(0, 1/10, 1/10), (1/5, 1/2, 1/2)]"]
  from main have a: "bucket_ok (acquire_all (ImprovedRateLimiter 2 1 3 1 0)
      [(0, 1/10, 1/10), (1/5, 1/2, 1/2)])"
    by simp
  from main init run
  have b: "bucket_ok ((ImprovedRateLimiter 2 1 3 1 0)\<lparr>tokens := 1, last_request_time := 1/10\<rparr>)"
    by blast
  from a b init run show ?thesis by simp
qed

section \<open>Properties of the retrying gateway\<close>

lemma attempts_made_simps [simp]:
  "attempts_made [] = 0"
  "attempts_made (WaitForToken # es) = Suc (attempts_made es)"
  "attempts_made (Call # es) = attempts_made es"
  "attempts_made (Sleep d # es) = attempts_made es"
  "attempts_made (es @ fs) = attempts_made es + attempts_made fs"
  by (simp_all add: attempts_made_def)

lemma calls_made_simps [simp]:
  "calls_made [] = 0"
  "calls_made (WaitForToken # es) = calls_made es"
  "calls_made (Call # es) = Suc (calls_made es)"
  "calls_made (Sleep d # es) = calls_made es"
  "calls_made (es @ fs) = calls_made es + calls_made fs"
  by (simp_all add: calls_made_def)

lemma attempts_from_bound:
  "attempts_made (snd (attempts_from rt s env a k)) \<le> k
   \<and> calls_made (snd (attempts_from rt s env a k))
       \<le> attempts_made (snd (attempts_from rt s env a k))"
proof (induction k arbitrary: a)
  case 0
  show ?case by simp
next
  case (Suc k)
  from Suc [of "Suc a"] show ?case
    by (auto simp: Let_def prepend_def split: attempt.splits option.splits handled.splits)
qed

lemma token_timeout_not_rate_limit: "\<not> is_rate_limit token_timeout"
  by (simp add: is_rate_limit_def token_timeout_def lower_def lower_cp_def of_ascii_def)

lemma sleep_ValueError_not_rate_limit: "\<not> is_rate_limit sleep_ValueError"
  by (simp add: is_rate_limit_def sleep_ValueError_def lower_def lower_cp_def of_ascii_def)

lemma sleep_OverflowError_not_rate_limit: "\<not> is_rate_limit sleep_OverflowError"
  by (simp add: is_rate_limit_def sleep_OverflowError_def lower_def lower_cp_def of_ascii_def)

lemma int_ValueError_not_rate_limit: "\<not> is_rate_limit int_ValueError"
  by (simp add: is_rate_limit_def int_ValueError_def lower_def lower_cp_def of_ascii_def)

lemma int_OverflowError_not_rate_limit: "\<not> is_rate_limit int_OverflowError"
  by (simp add: is_rate_limit_def int_OverflowError_def lower_def lower_cp_def of_ascii_def)

lemma sleep_outcome_not_rate_limit: "sleep_outcome rt w = Some x \<Longrightarrow> \<not> is_rate_limit x"
  using sleep_ValueError_not_rate_limit sleep_OverflowError_not_rate_limit
  by (auto simp: sleep_outcome_def split: if_splits)

lemma wait_time_not_rate_limit: "wait_time rt s a e = Inl x \<Longrightarrow> \<not> is_rate_limit x"
  using int_ValueError_not_rate_limit int_OverflowError_not_rate_limit
  by (auto simp: wait_time_def py_int_str_def split: option.splits sum.splits if_splits)

lemma except_handler_Fails: "except_handler rt s a e = Fails x \<Longrightarrow> \<not> is_rate_limit x"
  by (auto simp: except_handler_def split: if_splits sum.splits option.splits
      dest: wait_time_not_rate_limit sleep_outcome_not_rate_limit)

lemma except_handler_Reraise:
  "except_handler rt s a e = Reraise \<Longrightarrow> \<not> is_rate_limit e \<or> \<not> int a < max_retries s"
  by (auto simp: except_handler_def split: if_splits sum.splits option.splits)

lemma attempts_from_raised:
  "int a + int k = max_retries s + 1 \<Longrightarrow> attempts_from rt s env a k = (Raised e, tr)
   \<Longrightarrow> attempts_made tr = k \<or> \<not> is_rate_limit e"
proof (induction k arbitrary: a tr)
  case 0
  then show ?case by simp
next
  case (Suc k)
  obtain r tr' where rest: "attempts_from rt s env (Suc a) k = (r, tr')"
    by (cases "attempts_from rt s env (Suc a) k") auto
  have IH: "r = Raised e \<Longrightarrow> attempts_made tr' = k \<or> \<not> is_rate_limit e"
    using Suc.IH [of "Suc a" tr'] Suc.prems(1) rest by simp
  have last: "k = 0" if "\<not> int a < max_retries s"
    using that Suc.prems(1) by simp
  have handle: "attempts_made tr = Suc k \<or> \<not> is_rate_limit e"
    if h: "(case except_handler rt s a x of
              Reraise \<Rightarrow> (Raised x, es)
            | Fails y \<Rightarrow> (Raised y, es)
            | Retry w \<Rightarrow> prepend (es @ [Sleep w]) (r, tr')) = (Raised e, tr)"
      and es: "attempts_made es = 1" for x es
  proof (cases "except_handler rt s a x")
    case Reraise
    with h have "e = x" "tr = es" by simp_all
    with except_handler_Reraise [OF Reraise] es last show ?thesis by auto
  next
    case (Fails y)
    with h have "e = y" by simp
    with except_handler_Fails [OF Fails] show ?thesis by simp
  next
    case (Retry w)
    with h have "r = Raised e" "tr = es @ Sleep w # tr'" by (simp_all add: prepend_def)
    with IH es show ?thesis by auto
  qed
  show ?case
  proof (cases "env a")
    case TokenTimeout
    show ?thesis
    proof (cases "int a = max_retries s")
      case True
      with Suc.prems(2) TokenTimeout rest
      show ?thesis by (intro handle [where x = token_timeout and es = "[WaitForToken]"]) (simp_all add: Let_def)
    next
      case False
      show ?thesis
      proof (cases "sleep_outcome rt (retry_delay s * (real a + 1))")
        case None
        with Suc.prems(2) TokenTimeout rest False
        have "r = Raised e" "tr = [WaitForToken, Sleep (retry_delay s * (real a + 1))] @ tr'"
          by (simp_all add: Let_def prepend_def)
        with IH show ?thesis by auto
      next
        case (Some x)
        with Suc.prems(2) TokenTimeout rest False
        show ?thesis by (intro handle [where x = x and es = "[WaitForToken]"]) (simp_all add: Let_def)
      qed
    qed
  next
    case (WaitRaises x)
    with Suc.prems(2) rest
    show ?thesis by (intro handle [where x = x and es = "[WaitForToken]"]) (simp_all add: Let_def)
  next
    case (Returns v)
    with Suc.prems(2) show ?thesis by (simp add: Let_def)
  next
    case (Raises x)
    with Suc.prems(2) rest
    show ?thesis by (intro handle [where x = x and es = "[WaitForToken, Call]"]) (simp_all add: Let_def)
  qed
qed

lemma boom_not_rate_limit: "\<not> is_rate_limit (Exception (of_ascii ''boom''))"
  by (simp add: is_rate_limit_def lower_def lower_cp_def of_ascii_def)

lemma always_raising_boom:
  "execute_with_retry cpython (ImprovedRateLimiter 2 1 3 1 0)
       (always_raising (Exception (of_ascii ''boom'')))
     = (Raised (Exception (of_ascii ''boom'')), [WaitForToken, Call])"
  using boom_not_rate_limit
  by (simp add: execute_with_retry_def ImprovedRateLimiter_def always_raising_def
      except_handler_def eval_nat_numeral)

text \<open>
  C3 (as the code has it).  \<open>execute_with_retry\<close> makes at most \<open>max_retries + 1\<close>
  attempts and calls the wrapped function at most once per attempt.  When it raises,
  either every attempt has been made, or the error raised is not of the rate-limit class:
  such an error is raised at once, whatever number of attempts is left.
\<close>

theorem execute_with_retry_attempts:
  "attempts_made (snd (execute_with_retry rt s env)) \<le> nat (max_retries s + 1)
   \<and> calls_made (snd (execute_with_retry rt s env))
       \<le> attempts_made (snd (execute_with_retry rt s env))
   \<and> (\<forall>e. fst (execute_with_retry rt s env) = Raised e \<longrightarrow>
          attempts_made (snd (execute_with_retry rt s env)) = nat (max_retries s + 1)
          \<or> \<not> is_rate_limit e)"
proof (intro conjI allI impI)
  show "attempts_made (snd (execute_with_retry rt s env)) \<le> nat (max_retries s + 1)"
    unfolding execute_with_retry_def using attempts_from_bound by blast
  show "calls_made (snd (execute_with_retry rt s env))
      \<le> attempts_made (snd (execute_with_retry rt s env))"
    unfolding execute_with_retry_def using attempts_from_bound by blast
next
  fix e assume r: "fst (execute_with_retry rt s env) = Raised e"
  show "attempts_made (snd (execute_with_retry rt s env)) = nat (max_retries s + 1)
      \<or> \<not> is_rate_limit e"
  proof (cases "0 \<le> max_retries s + 1")
    case True
    then have "int 0 + int (nat (max_retries s + 1)) = max_retries s + 1" by simp
    moreover have "attempts_from rt s env 0 (nat (max_retries s + 1))
        = (Raised e, snd (execute_with_retry rt s env))"
      using r by (simp add: execute_with_retry_def prod_eq_iff)
    ultimately show ?thesis by (rule attempts_from_raised)
  next
    case False
    then have "nat (max_retries s + 1) = 0" by simp
    with r show ?thesis by (simp add: execute_with_retry_def)
  qed
qed

theorem execute_with_retry_attempts_witness:
  "fst (execute_with_retry cpython (ImprovedRateLimiter 2 1 3 1 0)
          (always_raising (Exception (of_ascii ''boom'')))) = Raised (Exception (of_ascii ''boom''))
   \<and> attempts_made (snd (execute_with_retry cpython (ImprovedRateLimiter 2 1 3 1 0)
          (always_raising (Exception (of_ascii ''boom''))))) \<le> 4
   \<and> \<not> is_rate_limit (Exception (of_ascii ''boom''))"
  using execute_with_retry_attempts
    [of cpython "ImprovedRateLimiter 2 1 3 1 0" "always_raising (Exception (of_ascii ''boom''))"]
    always_raising_boom boom_not_rate_limit
  by (simp add: ImprovedRateLimiter_def)

text \<open>
  The specification as worded fails: with three retries allowed, an operation that raises an
  ordinary error is given one attempt, not four, before the error reaches the caller.
\<close>

theorem execute_with_retry_raises_early:
  "fst (execute_with_retry cpython (ImprovedRateLimiter 2 1 3 1 0)
          (always_raising (Exception (of_ascii ''boom'')))) = Raised (Exception (of_ascii ''boom''))
   \<and> attempts_made (snd (execute_with_retry cpython (ImprovedRateLimiter 2 1 3 1 0)
          (always_raising (Exception (of_ascii ''boom''))))) = 1
   \<and> nat (max_retries (ImprovedRateLimiter 2 1 3 1 0) + 1) = 4"
  using always_raising_boom by (simp add: ImprovedRateLimiter_def)

lemma small_power_converts: "a < 1024 \<Longrightarrow> \<not> float_of_int_limit \<le> 2 ^ a"
proof -
  assume "a < 1024"
  then have "a \<le> 1023" by simp
  then have "(2::real) ^ a \<le> 2 ^ 1023"
    by (intro power_increasing) simp_all
  moreover have "(2::real) ^ 1023 < 2 ^ 1024 - 2 ^ 970"
    by simp
  ultimately show ?thesis
    by (simp add: float_of_int_limit_def)
qed

lemma slept_wait_converts:
  assumes "sleep_outcome rt (real n + 1/2) = None"
  shows "\<not> float_of_int_limit \<le> real n"
proof -
  from assms have "(real n + 1/2) * 10 ^ 9 \<le> 2 ^ 63"
    by (auto simp: sleep_outcome_def split: if_splits)
  then have "real n \<le> 2 ^ 63" by simp
  moreover have "(2::real) ^ 63 < 2 ^ 1024 - 2 ^ 970"
    by simp
  ultimately show ?thesis
    by (simp add: float_of_int_limit_def)
qed

lemma rate_limit_text:
  "is_rate_limit (Exception (of_ascii ''rate_limit reached''))"
  "search_after_seconds rt (of_ascii ''rate_limit reached'') = None"
  by (simp_all add: is_rate_limit_def lower_def lower_cp_def of_ascii_def match_after_seconds_def)

lemma cpython_digits:
  "is_digit cpython 1633" "is_digit cpython 1634" "\<not> is_digit cpython 32"
  "decimal cpython 1633 = Some 1" "decimal cpython 1634 = Some 2"
  "is_digit cpython 57" "decimal cpython 57 = Some 9"
  by (simp_all add: is_digit_def cpython_def unicode_decimal_def decimal_zeros_def)

lemma arabic_wait_text:
  "is_rate_limit (wait_seconds_error [1633, 1634])"
  "search_after_seconds cpython (str (wait_seconds_error [1633, 1634])) = Some [1633, 1634]"
  "py_int_str cpython [1633, 1634] = Inr 12"
  using cpython_digits
  by (simp_all add: wait_seconds_error_def is_rate_limit_def lower_def lower_cp_def of_ascii_def
      match_after_seconds_def py_int_str_def int_of_digits_def cpython_def)

text \<open>
  C4 (as the code has it).  When the wrapped function raises \<open>e\<close> at attempt \<open>a\<close>:
  \<^item> if \<open>e\<close> is of the rate-limit class, \<open>a\<close> is not the last attempt and the text of
    \<open>e\<close> has no \<open>after N seconds\<close>, the pause before the next attempt is
    \<open>max(1.0, retry_delay * 2^a)\<close> seconds: the floor is the constant one second, not
    \<open>retry_delay\<close>;
  \<^item> with \<open>after N seconds\<close> in the text, \<open>N\<close> a run of decimal digits of any script, the
    pause is \<open>N + 0.5\<close> seconds;
  \<^item> in both cases this holds when \<open>time.sleep\<close> takes the length (and \<open>a < 1024\<close>);
    otherwise, and when \<open>int\<close> refuses the digits, the exception raised in the handler
    ends the call and nothing further is attempted;
  \<^item> an error that is not of the rate-limit class is raised at once and nothing further
    is attempted.
\<close>

theorem execute_with_retry_backoff:
  assumes "env a = Raises e"
  shows "(is_rate_limit e \<and> int a < max_retries s \<and> search_after_seconds rt (str e) = None
            \<and> a < 1024 \<and> sleep_outcome rt (max 1 (retry_delay s * 2 ^ a)) = None \<longrightarrow>
            attempts_from rt s env a (Suc k)
              = prepend [WaitForToken, Call, Sleep (max 1 (retry_delay s * 2 ^ a))]
                  (attempts_from rt s env (Suc a) k))
       \<and> (\<forall>ds n. is_rate_limit e \<and> int a < max_retries s
               \<and> search_after_seconds rt (str e) = Some ds \<and> py_int_str rt ds = Inr n
               \<and> sleep_outcome rt (real n + 1/2) = None \<longrightarrow>
            attempts_from rt s env a (Suc k)
              = prepend [WaitForToken, Call, Sleep (real n + 1/2)]
                  (attempts_from rt s env (Suc a) k))
       \<and> (\<forall>x. is_rate_limit e \<and> int a < max_retries s
               \<and> search_after_seconds rt (str e) = None
               \<and> sleep_outcome rt (max 1 (retry_delay s * 2 ^ a)) = Some x \<longrightarrow>
            (\<exists>x'. attempts_from rt s env a (Suc k) = (Raised x', [WaitForToken, Call])
                 \<and> \<not> is_rate_limit x'))
       \<and> (\<forall>ds n x. is_rate_limit e \<and> int a < max_retries s
               \<and> search_after_seconds rt (str e) = Some ds
               \<and> (py_int_str rt ds = Inl x
                    \<or> py_int_str rt ds = Inr n \<and> sleep_outcome rt (real n + 1/2) = Some x) \<longrightarrow>
            (\<exists>x'. attempts_from rt s env a (Suc k) = (Raised x', [WaitForToken, Call])
                 \<and> \<not> is_rate_limit x'))
       \<and> (\<not> is_rate_limit e \<longrightarrow>
            attempts_from rt s env a (Suc k) = (Raised e, [WaitForToken, Call]))"
proof (intro conjI allI impI)
  assume h: "is_rate_limit e \<and> int a < max_retries s \<and> search_after_seconds rt (str e) = None
      \<and> a < 1024 \<and> sleep_outcome rt (max 1 (retry_delay s * 2 ^ a)) = None"
  then have "wait_time rt s a e = Inr (max 1 (retry_delay s * 2 ^ a))"
    using small_power_converts [of a] by (simp add: wait_time_def)
  with h have "except_handler rt s a e = Retry (max 1 (retry_delay s * 2 ^ a))"
    by (simp add: except_handler_def)
  with assms show "attempts_from rt s env a (Suc k)
      = prepend [WaitForToken, Call, Sleep (max 1 (retry_delay s * 2 ^ a))]
          (attempts_from rt s env (Suc a) k)"
    by (simp add: Let_def)
next
  fix ds n
  assume h: "is_rate_limit e \<and> int a < max_retries s
      \<and> search_after_seconds rt (str e) = Some ds \<and> py_int_str rt ds = Inr n
      \<and> sleep_outcome rt (real n + 1/2) = None"
  then have "wait_time rt s a e = Inr (real n + 1/2)"
    using slept_wait_converts [of rt n] by (simp add: wait_time_def)
  with h have "except_handler rt s a e = Retry (real n + 1/2)"
    by (simp add: except_handler_def)
  with assms show "attempts_from rt s env a (Suc k)
      = prepend [WaitForToken, Call, Sleep (real n + 1/2)] (attempts_from rt s env (Suc a) k)"
    by (simp add: Let_def)
next
  fix x
  assume h: "is_rate_limit e \<and> int a < max_retries s
      \<and> search_after_seconds rt (str e) = None
      \<and> sleep_outcome rt (max 1 (retry_delay s * 2 ^ a)) = Some x"
  then have "\<exists>x'. except_handler rt s a e = Fails x'"
    by (cases "float_of_int_limit \<le> 2 ^ a") (simp_all add: except_handler_def wait_time_def)
  then obtain x' where f: "except_handler rt s a e = Fails x'" ..
  with assms have "attempts_from rt s env a (Suc k) = (Raised x', [WaitForToken, Call])"
    by (simp add: Let_def)
  with except_handler_Fails [OF f]
  show "\<exists>x'. attempts_from rt s env a (Suc k) = (Raised x', [WaitForToken, Call])
             \<and> \<not> is_rate_limit x'"
    by blast
next
  fix ds n x
  assume h: "is_rate_limit e \<and> int a < max_retries s
      \<and> search_after_seconds rt (str e) = Some ds
      \<and> (py_int_str rt ds = Inl x
           \<or> py_int_str rt ds = Inr n \<and> sleep_outcome rt (real n + 1/2) = Some x)"
  then have "\<exists>x'. except_handler rt s a e = Fails x'"
    by (cases "float_of_int_limit \<le> real n")
      (auto simp: except_handler_def wait_time_def)
  then obtain x' where f: "except_handler rt s a e = Fails x'" ..
  with assms have "attempts_from rt s env a (Suc k) = (Raised x', [WaitForToken, Call])"
    by (simp add: Let_def)
  with except_handler_Fails [OF f]
  show "\<exists>x'. attempts_from rt s env a (Suc k) = (Raised x', [WaitForToken, Call])
             \<and> \<not> is_rate_limit x'"
    by blast
next
  assume "\<not> is_rate_limit e"
  then have "except_handler rt s a e = Reraise"
    by (simp add: except_handler_def)
  with assms show "attempts_from rt s env a (Suc k) = (Raised e, [WaitForToken, Call])"
    by (simp add: Let_def)
qed

text \<open>
  A suggested wait written in Arabic-Indic digits, \<open>after \<close>U+0661 U+0662\<open> seconds\<close>: the
  pause is 12.5 seconds.
\<close>

theorem execute_with_retry_backoff_witness:
  "raising_once (wait_seconds_error [1633, 1634]) 0 = Raises (wait_seconds_error [1633, 1634])
   \<and> is_rate_limit (wait_seconds_error [1633, 1634])
   \<and> search_after_seconds cpython (str (wait_seconds_error [1633, 1634])) = Some [1633, 1634]
   \<and> py_int_str cpython [1633, 1634] = Inr 12
   \<and> sleep_outcome cpython (25/2) = None
   \<and> attempts_from cpython (ImprovedRateLimiter 2 1 3 1 0)
        (raising_once (wait_seconds_error [1633, 1634])) 0 (Suc 3)
      = prepend [WaitForToken, Call, Sleep (25/2)]
          (attempts_from cpython (ImprovedRateLimiter 2 1 3 1 0)
             (raising_once (wait_seconds_error [1633, 1634])) (Suc 0) 3)"
proof -
  have r: "raising_once (wait_seconds_error [1633, 1634]) 0
      = Raises (wait_seconds_error [1633, 1634])"
    by (simp add: raising_once_def)
  have m: "int 0 < max_retries (ImprovedRateLimiter 2 1 3 1 0)"
    by (simp add: ImprovedRateLimiter_def)
  have sl: "sleep_outcome cpython (real 12 + 1/2) = None" "sleep_outcome cpython (25/2) = None"
    by (simp_all add: sleep_outcome_def cpython_def)
  from execute_with_retry_backoff
    [where env = "raising_once (wait_seconds_error [1633, 1634])"
       and a = 0 and e = "wait_seconds_error [1633, 1634]" and rt = cpython
       and s = "ImprovedRateLimiter 2 1 3 1 0" and k = 3, OF r]
    arabic_wait_text m sl(1)
  have "attempts_from cpython (ImprovedRateLimiter 2 1 3 1 0)
        (raising_once (wait_seconds_error [1633, 1634])) 0 (Suc 3)
      = prepend [WaitForToken, Call, Sleep (real 12 + 1/2)]
          (attempts_from cpython (ImprovedRateLimiter 2 1 3 1 0)
             (raising_once (wait_seconds_error [1633, 1634])) (Suc 0) 3)"
    by blast
  with r arabic_wait_text sl(2) show ?thesis by simp
qed

text \<open>
  The specification as worded fails where \<open>retry_delay\<close> is below one second: with
  \<open>retry_delay = 0.5\<close> the pause after a rate-limit error on the first attempt is one
  second, while \<open>max(base_delay, base_delay * 2^0)\<close> is half a second.
\<close>

theorem execute_with_retry_backoff_floor:
  "is_rate_limit (Exception (of_ascii ''rate_limit reached''))
   \<and> search_after_seconds cpython (of_ascii ''rate_limit reached'') = None
   \<and> execute_with_retry cpython (ImprovedRateLimiter 2 1 3 (1/2) 0)
        (raising_once (Exception (of_ascii ''rate_limit reached'')))
      = (Returned (), [WaitForToken, Call, Sleep 1, WaitForToken, Call])
   \<and> max (retry_delay (ImprovedRateLimiter 2 1 3 (1/2) 0))
          (retry_delay (ImprovedRateLimiter 2 1 3 (1/2) 0) * 2 ^ 0) = 1/2"
proof -
  have w: "wait_time cpython (ImprovedRateLimiter 2 1 3 (1/2) 0) 0
      (Exception (of_ascii ''rate_limit reached'')) = Inr 1"
    using rate_limit_text(2) [of cpython]
    by (simp add: wait_time_def float_of_int_limit_def ImprovedRateLimiter_def)
  have sl: "sleep_outcome cpython 1 = None"
    by (simp add: sleep_outcome_def cpython_def)
  have "except_handler cpython (ImprovedRateLimiter 2 1 3 (1/2) 0) 0
      (Exception (of_ascii ''rate_limit reached'')) = Retry 1"
    using rate_limit_text(1) w sl by (simp add: except_handler_def ImprovedRateLimiter_def)
  then have "execute_with_retry cpython (ImprovedRateLimiter 2 1 3 (1/2) 0)
        (raising_once (Exception (of_ascii ''rate_limit reached'')))
      = (Returned (), [WaitForToken, Call, Sleep 1, WaitForToken, Call])"
    by (simp add: execute_with_retry_def raising_once_def eval_nat_numeral prepend_def
        ImprovedRateLimiter_def)
  with rate_limit_text(1) rate_limit_text(2) [of cpython] show ?thesis
    by (simp add: ImprovedRateLimiter_def)
qed

text \<open>
  A suggested wait that \<open>time.sleep\<close> does not take, 9223372037 seconds: the handler's
  \<open>OverflowError\<close> ends the call after the first attempt.
\<close>

lemma huge_wait_ends_call:
  "execute_with_retry cpython (ImprovedRateLimiter 2 1 3 1 0)
       (raising_once (wait_seconds_error (of_ascii ''9223372037'')))
     = (Raised sleep_OverflowError, [WaitForToken, Call])"
proof -
  have d: "is_digit cpython c \<longleftrightarrow> 48 \<le> c" "decimal cpython c = Some (c - 48)"
    if "c \<le> 57" "48 \<le> c" for c
    using that by (simp_all add: is_digit_def cpython_def unicode_decimal_def decimal_zeros_def)
  have s: "\<not> is_digit cpython 32"
    by (rule cpython_digits)
  have t: "is_rate_limit (wait_seconds_error (of_ascii ''9223372037''))"
    by (simp add: wait_seconds_error_def is_rate_limit_def lower_def lower_cp_def of_ascii_def)
  have g: "search_after_seconds cpython (str (wait_seconds_error (of_ascii ''9223372037'')))
      = Some (of_ascii ''9223372037'')"
    using s by (simp add: wait_seconds_error_def of_ascii_def match_after_seconds_def d)
  have i: "py_int_str cpython (of_ascii ''9223372037'') = Inr 9223372037"
    by (simp add: py_int_str_def int_of_digits_def of_ascii_def d) (simp add: cpython_def)
  have w: "wait_time cpython (ImprovedRateLimiter 2 1 3 1 0) 0
      (wait_seconds_error (of_ascii ''9223372037'')) = Inr (9223372037 + 1/2)"
    by (simp add: wait_time_def g i float_of_int_limit_def)
  have o: "sleep_outcome cpython (9223372037 + 1/2) = Some sleep_OverflowError"
    by (simp add: sleep_outcome_def)
  have "except_handler cpython (ImprovedRateLimiter 2 1 3 1 0) 0
      (wait_seconds_error (of_ascii ''9223372037'')) = Fails sleep_OverflowError"
    using t w o by (simp add: except_handler_def ImprovedRateLimiter_def)
  then show ?thesis
    by (simp add: execute_with_retry_def raising_once_def eval_nat_numeral
        ImprovedRateLimiter_def)
qed

section \<open>Properties of the audio queue manager\<close>

lemma drain_empty [simp]: "drain q = []"
  by (induction q) simp_all

lemma resume_idle:
  assumes "audio_queue m = []" "current_audio m = None" "\<not> is_playing m"
  shows "audio_queue (resume w m) = [] \<and> current_audio (resume w m) = None
       \<and> \<not> is_playing (resume w m)
       \<and> (\<forall>p t. task (resume w m) = Sleeping p t \<longrightarrow> task m = Sleeping p t)"
  using assms by (simp add: resume_def split: task.splits)

lemma resumes_idle:
  assumes "audio_queue m = []" "current_audio m = None" "\<not> is_playing m"
  shows "audio_queue (resumes m ws) = [] \<and> current_audio (resumes m ws) = None
       \<and> \<not> is_playing (resumes m ws)
       \<and> (\<forall>p t. task (resumes m ws) = Sleeping p t \<longrightarrow> task m = Sleeping p t)"
  using assms
proof (induction ws arbitrary: m)
  case Nil
  then show ?case by simp
next
  case (Cons w ws)
  from resume_idle [OF Cons.prems, of w] Cons.IH [of "resume w m"]
  show ?case by simp
qed

lemma resumes_no_sleep_start:
  assumes "audio_queue m = []" "current_audio m = None" "\<not> is_playing m"
    and "\<forall>p t. task m \<noteq> Sleeping p t"
  shows "\<forall>p t. task (resumes m ws) \<noteq> Sleeping p t"
  using resumes_idle [OF assms(1-3), of ws] assms(4) by blast

text \<open>
  C8.  Whatever the manager's state, after \<open>clear_queue\<close> the queue is empty and there is
  no current item and nothing playing, so \<open>get_status\<close> reports \<open>playing = False\<close> and
  \<open>queue_size = 0\<close>.  However often the consumer is resumed afterwards, the queue stays
  empty and the status idle, and the consumer never enters a simulated playback other
  than the one it was already in: no drained item is played.
\<close>

theorem clear_queue_idle:
  "audio_queue (clear_queue m) = []
   \<and> current_audio (clear_queue m) = None
   \<and> \<not> is_playing (clear_queue m)
   \<and> playing (get_status w (clear_queue m)) = False
   \<and> queue_size (get_status w (clear_queue m)) = 0
   \<and> (\<forall>ws. playing (get_status w (resumes (clear_queue m) ws)) = False
          \<and> queue_size (get_status w (resumes (clear_queue m) ws)) = 0
          \<and> (\<forall>p t. task (resumes (clear_queue m) ws) = Sleeping p t \<longrightarrow> task m = Sleeping p t))"
proof -
  have c: "audio_queue (clear_queue m) = []" "current_audio (clear_queue m) = None"
    "\<not> is_playing (clear_queue m)"
    by (simp_all add: clear_queue_def)
  have t: "task (clear_queue m) = task m"
    by (simp add: clear_queue_def)
  have s: "playing (get_status w (clear_queue m)) = False
      \<and> queue_size (get_status w (clear_queue m)) = 0"
    using c by (simp add: get_status_def)
  have "playing (get_status w (resumes (clear_queue m) ws)) = False
      \<and> queue_size (get_status w (resumes (clear_queue m) ws)) = 0
      \<and> (\<forall>p t. task (resumes (clear_queue m) ws) = Sleeping p t \<longrightarrow> task m = Sleeping p t)" for ws
    using resumes_idle [OF c, of ws] t by (simp add: get_status_def)
  with c s show ?thesis by blast
qed

text \<open>
  Two items queued behind one that is playing: after \<open>clear_queue\<close> the status is idle
  with an empty queue, and the consumer, resumed three times, plays neither.
\<close>

theorem clear_queue_idle_witness:
  "task (resumes (clear_queue
        \<lparr>audio_queue = [of_ascii ''a.mp3'', of_ascii ''b.mp3''],
         current_audio = Some (of_ascii ''c.mp3''), audio_start_time = 0,
         audio_play_duration = 4, is_playing = True,
         task = Sleeping (of_ascii ''c.mp3'') 4\<rparr>) [all_files, all_files, all_files]) = AtGet
   \<and> get_status all_files (clear_queue
        \<lparr>audio_queue = [of_ascii ''a.mp3'', of_ascii ''b.mp3''],
         current_audio = Some (of_ascii ''c.mp3''), audio_start_time = 0,
         audio_play_duration = 4, is_playing = True,
         task = Sleeping (of_ascii ''c.mp3'') 4\<rparr>)
      = \<lparr>playing = False, path = None, remaining = None, elapsed = None, total = None,
         queue_size = 0\<rparr>"
  using clear_queue_idle [of
        "\<lparr>audio_queue = [of_ascii ''a.mp3'', of_ascii ''b.mp3''],
         current_audio = Some (of_ascii ''c.mp3''), audio_start_time = 0,
         audio_play_duration = 4, is_playing = True,
         task = Sleeping (of_ascii ''c.mp3'') 4\<rparr>" all_files]
  by (simp add: clear_queue_def get_status_def resume_def)

lemma resume_current_playing:
  assumes "current_audio m = None \<longrightarrow> \<not> is_playing m"
  shows "current_audio (resume w m) = None \<longrightarrow> \<not> is_playing (resume w m)"
  using assms
  by (auto simp: resume_def Let_def split: task.splits list.splits sum.splits)

lemma step_current_playing:
  assumes "current_audio (mgr s) = None \<longrightarrow> \<not> is_playing (mgr s)"
  shows "current_audio (mgr (step w a s)) = None \<longrightarrow> \<not> is_playing (mgr (step w a s))"
proof (cases a)
  case DoStart
  with assms show ?thesis by (simp add: start_def)
next
  case DoStopCancel
  with assms show ?thesis by (simp add: stop_cancel_def)
next
  case DoStopReturn
  with assms show ?thesis by (simp add: stop_return_def Let_def)
next
  case (DoAdd p)
  with assms show ?thesis by (simp add: add_to_queue_def start_def)
next
  case DoClear
  then show ?thesis by (simp add: clear_queue_def)
next
  case DoResume
  with assms resume_current_playing [of "mgr s" w]
  show ?thesis by (simp add: consumer_resume_def)
next
  case (DoResumeOrphan i)
  from assms have "current_audio (mgr s\<lparr>task := t\<rparr>) = None \<longrightarrow> \<not> is_playing (mgr s\<lparr>task := t\<rparr>)" for t
    by simp
  from resume_current_playing [OF this, of w] DoResumeOrphan assms
  show ?thesis by (auto simp: orphan_resume_def Let_def)
qed

text \<open>
  The half of the invariant that holds whatever the schedule, stops overtaken or not:
  without a current item nothing is reported as playing.
\<close>

lemma run_current_playing:
  assumes "current_audio (mgr s) = None \<longrightarrow> \<not> is_playing (mgr s)"
  shows "current_audio (mgr (run s sched)) = None \<longrightarrow> \<not> is_playing (mgr (run s sched))"
  using assms
proof (induction sched arbitrary: s)
  case Nil
  then show ?case by simp
next
  case (Cons x sched)
  obtain w a where x: "x = (w, a)" by (cases x) auto
  from Cons.prems have "current_audio (mgr (step w a s)) = None \<longrightarrow> \<not> is_playing (mgr (step w a s))"
    by (rule step_current_playing)
  from Cons.IH [OF this] x show ?case by simp
qed

lemma reachable_current_playing:
  "current_audio (mgr (run AudioSystem sched)) = None
     \<longrightarrow> \<not> is_playing (mgr (run AudioSystem sched))"
  by (rule run_current_playing) (simp add: AudioSystem_def AudioManager_def)

lemma played_at_most_one: "length (played t) \<le> 1"
  by (cases t) simp_all

text \<open>
  As long as no call of \<open>stop\<close> has gone on past its \<open>await\<close>, there is one consumer and
  at most one item in playback.
\<close>

lemma run_single_consumer:
  assumes "orphans s = []" and "\<forall>(w, a)\<in>set sched. a \<noteq> DoStopReturn"
  shows "orphans (run s sched) = [] \<and> length (in_playback (run s sched)) \<le> 1"
  using assms
proof (induction sched arbitrary: s)
  case Nil
  with played_at_most_one [of "task (mgr s)"] show ?case
    by (simp add: in_playback_def)
next
  case (Cons x sched)
  obtain w a where x: "x = (w, a)" by (cases x) auto
  with Cons.prems have a: "a \<noteq> DoStopReturn" by simp
  with Cons.prems(1) have "orphans (step w a s) = []"
    by (cases a) (simp_all add: stop_cancel_def consumer_resume_def orphan_resume_def)
  moreover from Cons.prems(2) have "\<forall>(w, a)\<in>set sched. a \<noteq> DoStopReturn" by simp
  ultimately have "orphans (run (step w a s) sched) = []
      \<and> length (in_playback (run (step w a s) sched)) \<le> 1"
    by (rule Cons.IH)
  with x show ?case by simp
qed

lemma run_append: "run s (xs @ ys) = run (run s xs) ys"
  by (induction xs arbitrary: s) auto

lemma run_overtaken_stop:
  "run AudioSystem overtaken_stop
     = \<lparr>mgr = \<lparr>audio_queue = [], current_audio = Some (of_ascii ''c.mp3''),
               audio_start_time = 0, audio_play_duration = 4, is_playing = True,
               task = Sleeping (of_ascii ''c.mp3'') 4\<rparr>,
        cancelled = False, awaited = 0, resumable = 0,
        orphans = [\<lparr>consumer = Sleeping (of_ascii ''b.mp3'') 4, orphan_cancelled = False,
                    orphan_awaited = 0\<rparr>]\<rparr>"
  by (simp add: overtaken_stop_def AudioSystem_def AudioManager_def add_to_queue_def start_def
      stop_cancel_def stop_return_def consumer_resume_def orphan_resume_def resume_def
      running_def all_files_def of_ascii_def Let_def)

text \<open>
  C9 does not hold of the code.  After the schedule \<open>overtaken_stop\<close>, in which
  \<open>add_to_queue\<close> runs while a call of \<open>stop\<close> is suspended at \<open>await self.task\<close>, two
  consumers simulate a playback at the same time, of \<open>c.mp3\<close> and of \<open>b.mp3\<close>, and the one
  current-item slot holds \<open>c.mp3\<close>.  When the playback of \<open>b.mp3\<close> ends, its consumer
  resets the slot: \<open>c.mp3\<close> is still in playback, and there is no current item and
  \<open>get_status\<close> reports that nothing is playing.
\<close>

theorem stop_start_race:
  "in_playback (run AudioSystem overtaken_stop) = [of_ascii ''c.mp3'', of_ascii ''b.mp3'']
   \<and> \<not> length (in_playback (run AudioSystem overtaken_stop)) \<le> 1
   \<and> current_audio (mgr (run AudioSystem overtaken_stop)) = Some (of_ascii ''c.mp3'')
   \<and> in_playback (run AudioSystem (overtaken_stop @ [(all_files, DoResumeOrphan 0)]))
       = [of_ascii ''c.mp3'']
   \<and> current_audio (mgr (run AudioSystem (overtaken_stop @ [(all_files, DoResumeOrphan 0)])))
       = None
   \<and> playing (get_status all_files
         (mgr (run AudioSystem (overtaken_stop @ [(all_files, DoResumeOrphan 0)])))) = False"
proof -
  note r = run_overtaken_stop
  have a: "in_playback (run AudioSystem overtaken_stop)
      = [of_ascii ''c.mp3'', of_ascii ''b.mp3'']"
    by (simp add: r in_playback_def)
  have b: "current_audio (mgr (run AudioSystem overtaken_stop)) = Some (of_ascii ''c.mp3'')"
    by (simp add: r)
  have e: "run AudioSystem (overtaken_stop @ [(all_files, DoResumeOrphan 0)])
      = \<lparr>mgr = \<lparr>audio_queue = [], current_audio = None,
               audio_start_time = 0, audio_play_duration = 4, is_playing = False,
               task = Sleeping (of_ascii ''c.mp3'') 4\<rparr>,
        cancelled = False, awaited = 0, resumable = 0,
        orphans = [\<lparr>consumer = Pausing, orphan_cancelled = False, orphan_awaited = 0\<rparr>]\<rparr>"
    by (simp add: run_append r orphan_resume_def resume_def running_def)
  have c: "in_playback (run AudioSystem (overtaken_stop @ [(all_files, DoResumeOrphan 0)]))
      = [of_ascii ''c.mp3'']"
    by (simp add: e in_playback_def)
  have d: "current_audio (mgr (run AudioSystem (overtaken_stop @ [(all_files, DoResumeOrphan 0)])))
      = None"
    by (simp add: e)
  have f: "playing (get_status all_files
      (mgr (run AudioSystem (overtaken_stop @ [(all_files, DoResumeOrphan 0)])))) = False"
    by (simp add: e get_status_def)
  from a b c d f show ?thesis by simp
qed

text \<open>
  C10.  With an empty path, or a path naming no existing file, \<open>add_to_queue\<close> returns
  \<open>False\<close> and the manager is unchanged (queue and consumer task as before).  It returns
  \<open>True\<close> only for a non-empty path of an existing file, and then the path has been
  appended to the queue; the consumer task has been created if there was none.
\<close>

theorem add_to_queue_result:
  "(audio_path = [] \<or> \<not> path_exists w audio_path \<longrightarrow>
       add_to_queue w audio_path m = (False, m))
   \<and> (fst (add_to_queue w audio_path m) \<longrightarrow>
         audio_path \<noteq> [] \<and> path_exists w audio_path
       \<and> audio_queue (snd (add_to_queue w audio_path m)) = audio_queue m @ [audio_path]
       \<and> task (snd (add_to_queue w audio_path m)) \<noteq> NoTask)"
proof (cases "audio_path = [] \<or> \<not> path_exists w audio_path")
  case True
  then have "add_to_queue w audio_path m = (False, m)"
    by (simp add: add_to_queue_def)
  then show ?thesis by simp
next
  case False
  then have r: "add_to_queue w audio_path m
      = (True, start (m\<lparr>audio_queue := audio_queue m @ [audio_path]\<rparr>))"
    by (simp add: add_to_queue_def)
  have "audio_queue (start (m\<lparr>audio_queue := audio_queue m @ [audio_path]\<rparr>))
      = audio_queue m @ [audio_path]"
    by (simp add: start_def)
  moreover have "task (start (m\<lparr>audio_queue := audio_queue m @ [audio_path]\<rparr>)) \<noteq> NoTask"
    by (simp add: start_def)
  ultimately show ?thesis using False r by simp
qed

theorem add_to_queue_result_witness:
  "add_to_queue no_files (of_ascii ''gone.mp3'') AudioManager = (False, AudioManager)
   \<and> add_to_queue all_files [] AudioManager = (False, AudioManager)
   \<and> fst (add_to_queue all_files (of_ascii ''a.mp3'') AudioManager)
   \<and> audio_queue (snd (add_to_queue all_files (of_ascii ''a.mp3'') AudioManager))
       = [of_ascii ''a.mp3'']"
proof -
  have t: "fst (add_to_queue all_files (of_ascii ''a.mp3'') AudioManager)"
    by (simp add: add_to_queue_def all_files_def of_ascii_def)
  from add_to_queue_result [of "of_ascii ''gone.mp3''" no_files AudioManager]
  have a: "add_to_queue no_files (of_ascii ''gone.mp3'') AudioManager = (False, AudioManager)"
    by (simp add: no_files_def)
  from add_to_queue_result [of "[]" all_files AudioManager]
  have b: "add_to_queue all_files [] AudioManager = (False, AudioManager)"
    by simp
  from add_to_queue_result [of "of_ascii ''a.mp3''" all_files AudioManager] t
  have c: "audio_queue (snd (add_to_queue all_files (of_ascii ''a.mp3'') AudioManager))
       = [of_ascii ''a.mp3'']"
    by (simp add: AudioManager_def)
  from a b c t show ?thesis by simp
qed

section \<open>Properties of the text segmenter\<close>

lemma in_set_not_Nil: "x \<in> set xs \<Longrightarrow> xs \<noteq> []"
  by auto

lemma takeWhile_length_lt: "\<exists>x\<in>set xs. \<not> P x \<Longrightarrow> length (takeWhile P xs) < length xs"
  by (induction xs) auto

lemma takeWhile_nth_holds: "i < length (takeWhile P xs) \<Longrightarrow> P (xs ! i)"
proof (induction xs arbitrary: i)
  case Nil
  then show ?case by simp
next
  case (Cons x xs)
  then show ?case by (cases i) (auto split: if_splits)
qed

lemma takeWhile_class_le:
  "c \<in> T \<Longrightarrow> length (takeWhile (\<lambda>x. x \<notin> T) xs) \<le> length (takeWhile (\<lambda>x. x \<noteq> c) xs)"
  by (induction xs) auto

lemma takeWhile_class_attained:
  "\<exists>x\<in>set xs. x \<in> T \<Longrightarrow>
   \<exists>c\<in>T. c \<in> set xs
        \<and> length (takeWhile (\<lambda>x. x \<noteq> c) xs) = length (takeWhile (\<lambda>x. x \<notin> T) xs)"
proof (induction xs)
  case Nil
  then show ?case by simp
next
  case (Cons x xs)
  show ?case
  proof (cases "x \<in> T")
    case True
    then show ?thesis by (intro bexI [of _ x]) simp_all
  next
    case False
    with Cons.prems have "\<exists>x\<in>set xs. x \<in> T" by auto
    from Cons.IH [OF this] obtain c where c: "c \<in> T" "c \<in> set xs"
      "length (takeWhile (\<lambda>x. x \<noteq> c) xs) = length (takeWhile (\<lambda>x. x \<notin> T) xs)"
      by blast
    with False have "x \<noteq> c" by auto
    with c False show ?thesis by (intro bexI [of _ c]) simp_all
  qed
qed

lemma valid_positions_set:
  "set (filter (\<lambda>pos. pos \<noteq> - 1) (map (\<lambda>char. str_find char text) cs))
     = (\<lambda>c. int (length (takeWhile (\<lambda>x. x \<noteq> c) text))) ` (set cs \<inter> set text)"
  by (auto simp: str_find_def image_iff)

lemma find_sentence_end_earliest:
  assumes "\<exists>x\<in>set text. x \<in> set end_chars"
  shows "find_sentence_end text = int (first_end text)"
proof -
  let ?valid = "filter (\<lambda>pos. pos \<noteq> - 1) (map (\<lambda>char. str_find char text) end_chars)"
  let ?f = "\<lambda>c. int (length (takeWhile (\<lambda>x. x \<noteq> c) text))"
  have set_valid: "set ?valid = ?f ` (set end_chars \<inter> set text)"
    by (rule valid_positions_set)
  from takeWhile_class_attained [OF assms] obtain c where c: "c \<in> set end_chars" "c \<in> set text"
    "length (takeWhile (\<lambda>x. x \<noteq> c) text) = first_end text"
    by (auto simp: first_end_def)
  have "int (first_end text) \<in> ?f ` (set end_chars \<inter> set text)"
    using c by (intro image_eqI [of _ _ c]) simp_all
  then have mem: "int (first_end text) \<in> set ?valid"
    unfolding set_valid .
  have ne: "?valid \<noteq> []"
    by (rule in_set_not_Nil [OF mem])
  have lower: "int (first_end text) \<le> y" if "y \<in> set ?valid" for y
  proof -
    from that obtain d where "d \<in> set end_chars" "y = ?f d"
      unfolding set_valid by auto
    with takeWhile_class_le [of d "set end_chars" "text"] show ?thesis
      by (simp add: first_end_def)
  qed
  have "Min (set ?valid) = int (first_end text)"
    by (rule Min_eqI) (use mem lower in auto)
  with ne have "min_list ?valid = int (first_end text)"
    by (simp add: min_list_Min)
  with ne show ?thesis
    by (simp add: find_sentence_end_def Let_def)
qed

lemma find_sentence_end_no_end:
  assumes "\<forall>x\<in>set text. x \<notin> set end_chars"
  shows "find_sentence_end text = (if length text > 50 then int (length text) - 1 else - 1)"
proof -
  have "filter (\<lambda>pos. pos \<noteq> - 1) (map (\<lambda>char. str_find char text) end_chars) = []"
    using assms by (auto simp: filter_empty_conv str_find_def)
  then show ?thesis
    by (simp add: find_sentence_end_def Let_def)
qed

lemma first_end_lt: "\<exists>x\<in>set text. x \<in> set end_chars \<Longrightarrow> first_end text < length text"
  unfolding first_end_def by (rule takeWhile_length_lt) auto

text \<open>
  C6 (as the code has it).  For a text with a sentence terminator, the segmenter finds the
  earliest one, at index \<open>first_end\<close>, and cuts the text after it when that index exceeds
  10 (a segment of at least 12 characters); otherwise it returns nothing and the text
  stays buffered.  For a text with no terminator it returns nothing up to 50 characters,
  and beyond that returns the whole text as the segment.  \<open>Hi\<close> gives no segment;
  \<open>This is a sentence. \<close> gives the segment up to the full stop and the trailing blank as
  the rest.
\<close>

theorem feed_segments:
  "((\<exists>x\<in>set text. x \<in> set end_chars) \<longrightarrow>
       feed text = (if first_end text > 10
                    then Some (take (first_end text + 1) text, drop (first_end text + 1) text)
                    else None)
     \<and> first_end text < length text \<and> text ! first_end text \<in> set end_chars
     \<and> (\<forall>i<first_end text. text ! i \<notin> set end_chars))
   \<and> ((\<forall>x\<in>set text. x \<notin> set end_chars) \<longrightarrow>
       feed text = (if length text > 50 then Some (text, []) else None))
   \<and> feed (of_ascii ''Hi'') = None
   \<and> feed (of_ascii ''This is a sentence. '')
       = Some (of_ascii ''This is a sentence.'', of_ascii '' '')"
proof (intro conjI impI)
  assume ex: "\<exists>x\<in>set text. x \<in> set end_chars"
  then have ne: "text \<noteq> []" by auto
  have "nat (int (first_end text) + 1) = first_end text + 1" by simp
  with ne show "feed text = (if first_end text > 10
                    then Some (take (first_end text + 1) text, drop (first_end text + 1) text)
                    else None)"
    by (simp add: feed_def find_sentence_end_earliest [OF ex] Let_def)
  show lt: "first_end text < length text"
    using ex by (rule first_end_lt)
  from lt show "text ! first_end text \<in> set end_chars"
    unfolding first_end_def using nth_length_takeWhile [of "\<lambda>x. x \<notin> set end_chars" "text"]
    by simp
  show "\<forall>i<first_end text. text ! i \<notin> set end_chars"
    unfolding first_end_def by (auto dest: takeWhile_nth_holds)
next
  assume no: "\<forall>x\<in>set text. x \<notin> set end_chars"
  show "feed text = (if length text > 50 then Some (text, []) else None)"
    by (auto simp: feed_def find_sentence_end_no_end [OF no] Let_def)
next
  show "feed (of_ascii ''Hi'') = None"
    by (simp add: feed_def find_sentence_end_def str_find_def end_chars_def of_ascii_def)
  show "feed (of_ascii ''This is a sentence. '')
       = Some (of_ascii ''This is a sentence.'', of_ascii '' '')"
    by (simp add: feed_def find_sentence_end_def str_find_def end_chars_def of_ascii_def)
qed

text \<open>
  The specification as worded fails on the fallback: a text of 51 letters with no terminator is
  returned whole as a segment.
\<close>

theorem feed_without_terminator:
  "set (replicate 51 97) \<inter> set end_chars = {}
   \<and> feed (replicate 51 97) = Some (replicate 51 97, [])"
proof -
  have no: "\<forall>x\<in>set (replicate 51 97). x \<notin> set end_chars"
    by (simp add: end_chars_def)
  have "feed (replicate 51 97) = Some (replicate 51 97, [])"
    by (simp add: feed_def find_sentence_end_no_end [OF no] Let_def)
  moreover have "set (replicate 51 97) \<inter> set end_chars = {}"
    by (simp add: end_chars_def)
  ultimately show ?thesis by simp
qed

theorem feed_segments_witness:
  "46 \<in> set (of_ascii ''Hello there. Bye'') \<and> 46 \<in> set end_chars
   \<and> first_end (of_ascii ''Hello there. Bye'') = 11
   \<and> feed (of_ascii ''Hello there. Bye'') = Some (of_ascii ''Hello there.'', of_ascii '' Bye'')
   \<and> set (of_ascii ''no end'') \<inter> set end_chars = {}
   \<and> feed (of_ascii ''no end'') = None"
proof -
  have a: "\<exists>x\<in>set (of_ascii ''Hello there. Bye''). x \<in> set end_chars"
    by (simp add: end_chars_def of_ascii_def)
  have b: "first_end (of_ascii ''Hello there. Bye'') = 11"
    by (simp add: first_end_def end_chars_def of_ascii_def)
  have c: "\<forall>x\<in>set (of_ascii ''no end''). x \<notin> set end_chars"
    by (simp add: end_chars_def of_ascii_def)
  note main1 = feed_segments [of "of_ascii ''Hello there. Bye''", THEN conjunct1, THEN mp,
      OF a, THEN conjunct1]
  have "feed (of_ascii ''Hello there. Bye'')
      = Some (take 12 (of_ascii ''Hello there. Bye''), drop 12 (of_ascii ''Hello there. Bye''))"
    using main1 b by simp
  moreover have "take 12 (of_ascii ''Hello there. Bye'') = of_ascii ''Hello there.''"
    "drop 12 (of_ascii ''Hello there. Bye'') = of_ascii '' Bye''"
    by (simp_all add: of_ascii_def)
  ultimately
  have d: "feed (of_ascii ''Hello there. Bye'') = Some (of_ascii ''Hello there.'', of_ascii '' Bye'')"
    by simp
  note main2 = feed_segments [of "of_ascii ''no end''", THEN conjunct2, THEN conjunct1,
      THEN mp, OF c]
  have "length (of_ascii ''no end'') = 6"
    by (simp add: of_ascii_def)
  with main2 have e: "feed (of_ascii ''no end'') = None"
    by simp
  have f: "46 \<in> set (of_ascii ''Hello there. Bye'') \<and> 46 \<in> set end_chars"
    "set (of_ascii ''no end'') \<inter> set end_chars = {}"
    by (simp_all add: end_chars_def of_ascii_def)
  from b d e f show ?thesis by simp
qed

subsection \<open>\<open>split_text_for_tts\<close>\<close>


lemma nonspace_dropWhile: "nonspace (dropWhile is_space s) = nonspace s"
  by (induction s) (simp_all add: nonspace_def)

lemma nonspace_rev: "nonspace (rev s) = rev (nonspace s)"
  by (simp add: nonspace_def rev_filter)

lemma nonspace_strip: "nonspace (strip s) = nonspace s"
  by (simp add: strip_def nonspace_rev nonspace_dropWhile)

lemma nonspace_append: "nonspace (a @ b) = nonspace a @ nonspace b"
  by (simp add: nonspace_def)

lemma set_strip: "set (strip s) \<subseteq> set s"
proof -
  have "set (strip s) \<subseteq> set (dropWhile is_space s)"
    unfolding strip_def using set_dropWhileD [of _ is_space "rev (dropWhile is_space s)"] by auto
  also have "\<dots> \<subseteq> set s"
    using set_dropWhileD [of _ is_space s] by auto
  finally show ?thesis .
qed




lemma ws_Nil [simp]: "ws_deleted [] src \<longleftrightarrow> list_all is_space src"
  by (induction src) simp_all

lemma ws_Cons_Cons:
  "ws_deleted (x # out) (c # src)
     \<longleftrightarrow> x = c \<and> ws_deleted out src \<or> is_space c \<and> ws_deleted (x # out) src"
  by simp









lemma ws_length: "ws_deleted out src \<Longrightarrow> length out \<le> length src"
proof (induction src arbitrary: out)
  case Nil
  then show ?case by simp
next
  case (Cons x src)
  from Cons.prems consider
      out' where "out = x # out'" "ws_deleted out' src"
    | "is_space x" "ws_deleted out src"
    by (auto split: list.splits)
  then show ?case
  proof cases
    case 1
    with Cons.IH [of out'] show ?thesis by simp
  next
    case 2
    with Cons.IH [of out] show ?thesis by simp
  qed
qed


text \<open>
  The relation tells deleted whitespace from added or moved whitespace: \<open>a b\<close> may
  become \<open>ab\<close>, but neither \<open>a  b\<close> (a blank added) nor \<open> ab\<close> (the blank moved).
\<close>

lemma ws_deleted_examples:
  "ws_deleted (of_ascii ''ab'') (of_ascii ''a b'')
   \<and> \<not> ws_deleted (of_ascii ''a  b'') (of_ascii ''a b'')
   \<and> \<not> ws_deleted (of_ascii '' ab'') (of_ascii ''a b'')
   \<and> ws_deleted (of_ascii ''ab.cd.'') (of_ascii ''ab. cd.'')"
  by (simp add: of_ascii_def is_space_def)



lemma chunks_Nil [simp]: "chunks n [] = []"
  by (simp add: chunks.simps)




lemma snd_save_current [simp]: "snd (save_current st) = []"
  by (simp add: save_current_def)

lemma comma_loop_blank:
  "strip part = [] \<Longrightarrow> comma_loop m (part # parts) (ps, cur) = comma_loop m parts (ps, cur)"
  by simp



















section \<open>Properties of the chat orchestrator and the transport\<close>

lemma stream_events_progress: "list_all is_progress (fst (stream_events rid chs err))"
  by (induction chs) (auto simp: Let_def split: list.splits option.splits)

lemma final_stream_progress: "list_all is_progress (fst (final_stream sv rid msgs))"
  by (simp add: final_stream_def stream_events_progress split: sum.splits)

lemma try_body_progress: "list_all is_progress (fst (try_body sv rid msgs))"
  by (auto simp: try_body_def Let_def final_stream_progress
      split: sum.splits list.splits option.splits prod.splits)

lemma process_stream_chat_events:
  "fst (process_stream_chat sv rid msgs)
     = Start rid # fst (try_body sv rid msgs)
         @ error_events rid (fst (snd (try_body sv rid msgs))) @ [End rid]"
  by (cases "try_body sv rid msgs")
    (auto simp: process_stream_chat_def error_events_def split: option.splits)

lemma error_events_cases:
  "error_events rid err = [] \<or> (\<exists>m. error_events rid err = [Error rid m])"
  by (cases err) (simp_all add: error_events_def)

lemma event_generator_progress:
  assumes "list_all is_progress pre"
  shows "(\<exists>out acc'. event_generator synth tts (pre @ rest) acc
                = (out @ fst (event_generator synth tts rest acc'),
                   snd (event_generator synth tts rest acc'))
              \<and> list_all (\<lambda>e. \<not> is_sse_end e \<and> \<not> is_sse_error e) out)
       \<or> (\<exists>out e. event_generator synth tts (pre @ rest) acc = (out, Some e))"
  using assms
proof (induction pre arbitrary: acc)
  case Nil
  have "event_generator synth tts ([] @ rest) acc
      = ([] @ fst (event_generator synth tts rest acc), snd (event_generator synth tts rest acc))"
    by simp
  then show ?case by (intro disjI1 exI [of _ "[]"] exI [of _ acc]) simp
next
  case (Cons ev pre)
  then have pre: "list_all is_progress pre" and ev: "is_progress ev" by simp_all
  have step: "(\<exists>out acc'. (x # o1 @ fst (event_generator synth tts (pre @ rest) a),
                           snd (event_generator synth tts (pre @ rest) a))
                = (out @ fst (event_generator synth tts rest acc'),
                   snd (event_generator synth tts rest acc'))
              \<and> list_all (\<lambda>e. \<not> is_sse_end e \<and> \<not> is_sse_error e) out)
       \<or> (\<exists>out e. (x # o1 @ fst (event_generator synth tts (pre @ rest) a),
                     snd (event_generator synth tts (pre @ rest) a)) = (out, Some e))"
    if "\<not> is_sse_end x \<and> \<not> is_sse_error x" "list_all (\<lambda>e. \<not> is_sse_end e \<and> \<not> is_sse_error e) o1"
    for x o1 a
    using Cons.IH [OF pre, of a]
  proof (elim disjE exE conjE)
    fix out acc'
    assume eq: "event_generator synth tts (pre @ rest) a
        = (out @ fst (event_generator synth tts rest acc'),
           snd (event_generator synth tts rest acc'))"
      and ok: "list_all (\<lambda>e. \<not> is_sse_end e \<and> \<not> is_sse_error e) out"
    show ?thesis
      by (intro disjI1 exI [of _ "x # o1 @ out"] exI [of _ acc']) (use eq ok that in simp)
  next
    fix out e
    assume "event_generator synth tts (pre @ rest) a = (out, Some e)"
    then show ?thesis by simp
  qed
  show ?case
  proof (cases ev)
    case (ToolCall rid c)
    from step [of "SseToolCall searching_notice" "[]" acc] ToolCall show ?thesis
      by (simp add: Let_def)
  next
    case (Chunk rid content)
    note s0 = step [of "SseChunk content" "[]", simplified]
    show ?thesis
    proof (cases "tts \<and> acc @ content \<noteq> []")
      case False
      with s0 [of "acc @ content"] Chunk show ?thesis by (auto simp: Let_def)
    next
      case True
      note on = this
      show ?thesis
      proof (cases "feed (acc @ content)")
        case None
        with s0 [of "acc @ content"] Chunk on show ?thesis by (auto simp: Let_def)
      next
        case (Some p)
        obtain sentence acc' where p: "p = (sentence, acc')" by (cases p) auto
        show ?thesis
        proof (cases "synth (of_ascii ''chunk_'') sentence")
          case (Inl e)
          with Some p Chunk on show ?thesis by (auto simp: Let_def)
        next
          case (Inr r)
          show ?thesis
          proof (cases r)
            case None
            with s0 [of acc'] Inr Some p Chunk on show ?thesis by (auto simp: Let_def)
          next
            case (Some url)
            from step [of "SseChunk content" "[SseAudio url]" acc'] Some Inr \<open>feed (acc @ content) = Some p\<close> p Chunk on
            show ?thesis by (auto simp: Let_def)
          qed
        qed
      qed
    qed
  qed (use ev in simp_all)
qed

lemma event_generator_End:
  assumes "snd (event_generator synth tts [End rid] acc) = None"
  shows "\<exists>out url. fst (event_generator synth tts [End rid] acc) = out @ [SseEnd url]
                 \<and> list_all (\<lambda>e. \<not> is_sse_end e \<and> \<not> is_sse_error e) out"
proof (cases "tts \<and> acc \<noteq> []")
  case False
  then have "fst (event_generator synth tts [End rid] acc) = [] @ [SseEnd None]" by auto
  then show ?thesis by (intro exI [of _ "[]"] exI [of _ None]) simp
next
  case True
  show ?thesis
  proof (cases "synth (of_ascii ''final_'') acc")
    case (Inl e)
    with True assms show ?thesis by simp
  next
    case (Inr r)
    show ?thesis
    proof (cases r)
      case None
      with Inr True have "fst (event_generator synth tts [End rid] acc) = [] @ [SseEnd None]"
        by simp
      then show ?thesis by (intro exI [of _ "[]"] exI [of _ None]) simp
    next
      case (Some url)
      with Inr True have "fst (event_generator synth tts [End rid] acc)
          = [SseAudio url] @ [SseEnd (Some url)]"
        by simp
      then show ?thesis by (intro exI [of _ "[SseAudio url]"] exI [of _ "Some url"]) simp
    qed
  qed
qed

lemma event_generator_turn_end:
  assumes "list_all is_progress plain"
    and "snd (event_generator synth tts (Start rid # plain @ [End rid]) []) = None"
  shows "\<exists>out url. fst (event_generator synth tts (Start rid # plain @ [End rid]) [])
                    = out @ [SseEnd url]
                 \<and> list_all (\<lambda>e. \<not> is_sse_end e \<and> \<not> is_sse_error e) out"
  using event_generator_progress [OF assms(1), of synth tts "[End rid]" "[]"]
proof (elim disjE exE conjE)
  fix out acc'
  assume eq: "event_generator synth tts (plain @ [End rid]) []
      = (out @ fst (event_generator synth tts [End rid] acc'),
         snd (event_generator synth tts [End rid] acc'))"
    and ok: "list_all (\<lambda>e. \<not> is_sse_end e \<and> \<not> is_sse_error e) out"
  from eq assms(2) have "snd (event_generator synth tts [End rid] acc') = None" by simp
  from event_generator_End [OF this] obtain out2 url where
    e2: "fst (event_generator synth tts [End rid] acc') = out2 @ [SseEnd url]"
    and ok2: "list_all (\<lambda>e. \<not> is_sse_end e \<and> \<not> is_sse_error e) out2"
    by blast
  show ?thesis
    by (intro exI [of _ "out @ out2"] exI [of _ url]) (use eq e2 ok ok2 in simp)
next
  fix out e
  assume "event_generator synth tts (plain @ [End rid]) [] = (out, Some e)"
  with assms(2) show ?thesis by simp
qed

lemma event_generator_turn_error:
  assumes "list_all is_progress plain"
    and "snd (event_generator synth tts (Start rid # plain @ [Error rid m, End rid]) []) = None"
  shows "\<exists>out. fst (event_generator synth tts (Start rid # plain @ [Error rid m, End rid]) [])
                    = out @ [SseError m]
                 \<and> list_all (\<lambda>e. \<not> is_sse_end e \<and> \<not> is_sse_error e) out"
  using event_generator_progress [OF assms(1), of synth tts "[Error rid m, End rid]" "[]"]
proof (elim disjE exE conjE)
  fix out acc'
  assume eq: "event_generator synth tts (plain @ [Error rid m, End rid]) []
      = (out @ fst (event_generator synth tts [Error rid m, End rid] acc'),
         snd (event_generator synth tts [Error rid m, End rid] acc'))"
    and ok: "list_all (\<lambda>e. \<not> is_sse_end e \<and> \<not> is_sse_error e) out"
  show ?thesis
    by (intro exI [of _ out]) (use eq ok in simp)
next
  fix out e
  assume "event_generator synth tts (plain @ [Error rid m, End rid]) [] = (out, Some e)"
  with assms(2) show ?thesis by simp
qed

lemma failing_service_turn:
  "fst (process_stream_chat failing_service [49] [])
     = [Start [49], Error [49] (api_error_msg (Exception (of_ascii ''Connection error.''))),
        End [49]]"
  by (simp add: process_stream_chat_def try_body_def failing_service_def)

lemma plain_service_turn:
  "fst (process_stream_chat plain_service [49] [])
     = [Start [49], Chunk [49] (of_ascii ''Hello''), Chunk [49] (of_ascii '' there''), End [49]]"
  by (simp add: process_stream_chat_def try_body_def plain_service_def stop_choice_def
      final_stream_def hello_stream_def of_ascii_def Let_def)

text \<open>
  C1 (as the code has it).  The events \<open>process_stream_chat\<close> yields for a turn are
  \<open>start\<close>, then \<open>tool_call\<close> and \<open>chunk\<close> events only, then at most one \<open>error\<close>
  event, then \<open>end\<close>: exactly one \<open>start\<close>, first, and exactly one \<open>end\<close>, last, also
  after an error.  The transport \<open>event_generator\<close> does not pass \<open>start\<close> on (its events
  have no such type) and returns after \<open>error\<close>: when no synthesis call raises, what it
  writes for a turn without error ends with its only \<open>end\<close> event, and what it writes
  for a turn with an error ends with that \<open>error\<close> event and has no \<open>end\<close>.
\<close>

theorem stream_events_start_end:
  "\<exists>plain err.
      fst (process_stream_chat sv rid msgs) = Start rid # plain @ err @ [End rid]
    \<and> list_all is_progress plain
    \<and> (err = [] \<or> (\<exists>m. err = [Error rid m]))
    \<and> (snd (event_generator synth tts (fst (process_stream_chat sv rid msgs)) []) = None \<longrightarrow>
         (err = [] \<longrightarrow>
            (\<exists>out url. fst (event_generator synth tts (fst (process_stream_chat sv rid msgs)) [])
                          = out @ [SseEnd url]
                      \<and> list_all (\<lambda>e. \<not> is_sse_end e \<and> \<not> is_sse_error e) out))
       \<and> (\<forall>m. err = [Error rid m] \<longrightarrow>
            (\<exists>out. fst (event_generator synth tts (fst (process_stream_chat sv rid msgs)) [])
                      = out @ [SseError m]
                  \<and> list_all (\<lambda>e. \<not> is_sse_end e \<and> \<not> is_sse_error e) out)))"
proof -
  define plain where "plain = fst (try_body sv rid msgs)"
  define err where "err = error_events rid (fst (snd (try_body sv rid msgs)))"
  have ev: "fst (process_stream_chat sv rid msgs) = Start rid # plain @ err @ [End rid]"
    by (simp add: process_stream_chat_events plain_def err_def)
  have pl: "list_all is_progress plain"
    by (simp add: plain_def try_body_progress)
  have er: "err = [] \<or> (\<exists>m. err = [Error rid m])"
    unfolding err_def by (rule error_events_cases)
  have a: "\<exists>out url. fst (event_generator synth tts (fst (process_stream_chat sv rid msgs)) [])
                          = out @ [SseEnd url]
                      \<and> list_all (\<lambda>e. \<not> is_sse_end e \<and> \<not> is_sse_error e) out"
    if "snd (event_generator synth tts (fst (process_stream_chat sv rid msgs)) []) = None"
      and "err = []"
    using event_generator_turn_end [OF pl, of synth tts rid] that ev by simp
  have b: "\<exists>out. fst (event_generator synth tts (fst (process_stream_chat sv rid msgs)) [])
                      = out @ [SseError m]
                  \<and> list_all (\<lambda>e. \<not> is_sse_end e \<and> \<not> is_sse_error e) out"
    if "snd (event_generator synth tts (fst (process_stream_chat sv rid msgs)) []) = None"
      and "err = [Error rid m]" for m
    using event_generator_turn_error [OF pl, of synth tts rid m] that ev by simp
  show ?thesis
  proof (rule exI [of _ plain], rule exI [of _ err], intro conjI impI allI)
    show "fst (process_stream_chat sv rid msgs) = Start rid # plain @ err @ [End rid]"
      by (rule ev)
    show "list_all is_progress plain" by (rule pl)
    show "err = [] \<or> (\<exists>m. err = [Error rid m])" by (rule er)
  next
    assume "snd (event_generator synth tts (fst (process_stream_chat sv rid msgs)) []) = None"
      and "err = []"
    then show "\<exists>out url. fst (event_generator synth tts (fst (process_stream_chat sv rid msgs)) [])
                          = out @ [SseEnd url]
                      \<and> list_all (\<lambda>e. \<not> is_sse_end e \<and> \<not> is_sse_error e) out"
      by (rule a)
  next
    fix m
    assume "snd (event_generator synth tts (fst (process_stream_chat sv rid msgs)) []) = None"
      and "err = [Error rid m]"
    then show "\<exists>out. fst (event_generator synth tts (fst (process_stream_chat sv rid msgs)) [])
                      = out @ [SseError m]
                  \<and> list_all (\<lambda>e. \<not> is_sse_end e \<and> \<not> is_sse_error e) out"
      by (rule b)
  qed
qed

text \<open>
  The specification as worded fails for the sequence the endpoint emits: a turn whose probe call
  fails is written to the client as the single event \<open>error\<close>, with neither \<open>start\<close>
  nor \<open>end\<close>, and a successful turn begins with a \<open>chunk\<close> event.
\<close>

theorem event_generator_drops_start_and_end:
  "event_generator no_synthesis False (fst (process_stream_chat failing_service [49] [])) []
     = ([SseError (api_error_msg (Exception (of_ascii ''Connection error.'')))], None)
   \<and> event_generator no_synthesis False (fst (process_stream_chat plain_service [49] [])) []
     = ([SseChunk (of_ascii ''Hello''), SseChunk (of_ascii '' there''), SseEnd None], None)"
  by (simp add: failing_service_turn plain_service_turn Let_def)

theorem stream_events_start_end_witness:
  "fst (process_stream_chat failing_service [49] [])
     = [Start [49], Error [49] (api_error_msg (Exception (of_ascii ''Connection error.''))),
        End [49]]
   \<and> snd (event_generator no_synthesis False (fst (process_stream_chat failing_service [49] [])) [])
     = None
   \<and> last (fst (event_generator no_synthesis False
        (fst (process_stream_chat failing_service [49] [])) []))
     = SseError (api_error_msg (Exception (of_ascii ''Connection error.'')))"
proof -
  have n: "snd (event_generator no_synthesis False
      (fst (process_stream_chat failing_service [49] [])) []) = None"
    by (simp add: failing_service_turn)
  from stream_events_start_end [of failing_service "[49]" "[]" no_synthesis False]
  obtain plain err where
    ev: "fst (process_stream_chat failing_service [49] []) = Start [49] # plain @ err @ [End [49]]"
    and pl: "list_all is_progress plain"
    and er: "err = [] \<or> (\<exists>m. err = [Error [49] m])"
    and out: "\<forall>m. err = [Error [49] m] \<longrightarrow>
            (\<exists>out. fst (event_generator no_synthesis False
                        (fst (process_stream_chat failing_service [49] [])) [])
                      = out @ [SseError m])"
    using n by blast
  from ev have "plain @ err = [Error [49] (api_error_msg (Exception (of_ascii ''Connection error.'')))]"
    by (simp add: failing_service_turn)
  with pl have "err = [Error [49] (api_error_msg (Exception (of_ascii ''Connection error.'')))]"
    by (cases plain) auto
  with out obtain out' where "fst (event_generator no_synthesis False
      (fst (process_stream_chat failing_service [49] [])) [])
        = out' @ [SseError (api_error_msg (Exception (of_ascii ''Connection error.'')))]"
    by blast
  then have "last (fst (event_generator no_synthesis False
        (fst (process_stream_chat failing_service [49] [])) []))
     = SseError (api_error_msg (Exception (of_ascii ''Connection error.'')))"
    by simp
  with n failing_service_turn show ?thesis by simp
qed

lemma tool_calls_loop_decoded:
  assumes "\<forall>tc\<in>set tcs. \<exists>j. loads sv (tc_arguments tc) = Inr j"
  shows "\<exists>tool_msgs. tool_calls_loop sv tcs msgs = (None, msgs @ tool_msgs)
                   \<and> list_all2 (tool_reply sv) tcs tool_msgs"
  using assms
proof (induction tcs arbitrary: msgs)
  case Nil
  then show ?case by simp
next
  case (Cons tc tcs)
  from Cons.prems obtain j where j: "loads sv (tc_arguments tc) = Inr j" by auto
  define m where "m = ToolMessage (tc_id tc) (tc_name tc)
      (dumps sv (if tc_name tc = web_search then search_impl j
                 else Text (unknown_tool_error (tc_name tc))))"
  have r: "tool_reply sv tc m"
    by (simp add: tool_reply_def m_def)
  from Cons.prems have "\<forall>tc\<in>set tcs. \<exists>j. loads sv (tc_arguments tc) = Inr j" by simp
  from Cons.IH [OF this, of "msgs @ [m]"] obtain tool_msgs where
    l: "tool_calls_loop sv tcs (msgs @ [m]) = (None, (msgs @ [m]) @ tool_msgs)"
    and a: "list_all2 (tool_reply sv) tcs tool_msgs"
    by blast
  have "tool_calls_loop sv (tc # tcs) msgs = (None, msgs @ (m # tool_msgs))"
    using j l by (simp add: m_def Let_def)
  with r a show ?case
    by (intro exI [of _ "m # tool_msgs"]) simp
qed

text \<open>
  C5 (as the code has it).  In a turn whose probe answers with \<open>finish_reason\<close>
  \<open>tool_calls\<close>, and in which the arguments of every requested call parse as JSON, the
  tool loop raises nothing: the history grows by the assistant's tool-call request and
  then one tool message per call, in order, each with the call's id and name, and for a
  call with a name other than \<open>$web_search\<close> the error text
  \<open>Error: unable to find tool by name '...'\<close> (dumped) as its content.  The streaming call
  is then made on that history, its chunks follow the \<open>tool_call\<close> notice, and the
  sequence ends with \<open>end\<close> (after an \<open>error\<close> event if the streaming call fails).
  \<open>process_chat_request\<close> leaves the same history.
\<close>

theorem unknown_tool_turn:
  assumes "probe sv msgs = Inr (choice # others)"
    and "finish_reason choice = of_ascii ''tool_calls''"
    and "am_tool_calls (message choice) = Some tcs"
    and "\<forall>tc\<in>set tcs. \<exists>j. loads sv (tc_arguments tc) = Inr j"
  shows "\<exists>tool_msgs.
      snd (process_stream_chat sv rid msgs) = msgs @ [AssistantDump (message choice)] @ tool_msgs
    \<and> list_all2 (tool_reply sv) tcs tool_msgs
    \<and> fst (process_stream_chat sv rid msgs)
        = [Start rid, ToolCall rid searching_notice]
          @ fst (final_stream sv rid (msgs @ [AssistantDump (message choice)] @ tool_msgs))
          @ error_events rid
              (snd (final_stream sv rid (msgs @ [AssistantDump (message choice)] @ tool_msgs)))
          @ [End rid]
    \<and> snd (process_chat_request sv msgs) = msgs @ [AssistantDump (message choice)] @ tool_msgs"
proof -
  from tool_calls_loop_decoded [OF assms(4), of "msgs @ [AssistantDump (message choice)]"]
  obtain tool_msgs where
    l: "tool_calls_loop sv tcs (msgs @ [AssistantDump (message choice)])
          = (None, (msgs @ [AssistantDump (message choice)]) @ tool_msgs)"
    and a: "list_all2 (tool_reply sv) tcs tool_msgs"
    by blast
  let ?h = "msgs @ [AssistantDump (message choice)] @ tool_msgs"
  have t: "try_body sv rid msgs
      = (ToolCall rid searching_notice # fst (final_stream sv rid ?h),
         snd (final_stream sv rid ?h), ?h)"
    using assms(1-3) l by (simp add: try_body_def Let_def)
  have 1: "snd (process_stream_chat sv rid msgs) = ?h"
    using t by (simp add: process_stream_chat_def split: option.splits)
  have 2: "fst (process_stream_chat sv rid msgs)
        = [Start rid, ToolCall rid searching_notice] @ fst (final_stream sv rid ?h)
          @ error_events rid (snd (final_stream sv rid ?h)) @ [End rid]"
    using t by (simp add: process_stream_chat_events)
  have 3: "snd (process_chat_request sv msgs) = ?h"
    using assms(1-3) l
    by (simp add: process_chat_request_def Let_def split: sum.splits list.splits)
  from 1 2 3 a show ?thesis by blast
qed

theorem unknown_tool_turn_witness:
  "tc_name (lookup_call (of_ascii ''{}'')) \<noteq> web_search
   \<and> process_stream_chat (tool_service (of_ascii ''{}'')) [49] []
     = ([Start [49], ToolCall [49] searching_notice, Chunk [49] (of_ascii ''Hello''),
         Chunk [49] (of_ascii '' there''), End [49]],
        [AssistantDump (message (tool_choice (of_ascii ''{}''))),
         ToolMessage (of_ascii ''call_1'') (of_ascii ''lookup'')
           (dump_text (Text (unknown_tool_error (of_ascii ''lookup''))))])"
proof -
  let ?sv = "tool_service (of_ascii ''{}'')"
  let ?c = "tool_choice (of_ascii ''{}'')"
  have p: "probe ?sv [] = Inr (?c # [])"
    by (simp add: tool_service_def)
  have f: "finish_reason ?c = of_ascii ''tool_calls''"
    by (simp add: tool_choice_def)
  have t: "am_tool_calls (message ?c) = Some [lookup_call (of_ascii ''{}'')]"
    by (simp add: tool_choice_def)
  have d: "\<forall>tc\<in>set [lookup_call (of_ascii ''{}'')]. \<exists>j. loads ?sv (tc_arguments tc) = Inr j"
    by (simp add: tool_service_def lookup_call_def decode_braces_def)
  have n: "tc_name (lookup_call (of_ascii ''{}'')) \<noteq> web_search"
    by (simp add: lookup_call_def web_search_def of_ascii_def)
  have s: "final_stream ?sv [49] h
      = ([Chunk [49] (of_ascii ''Hello''), Chunk [49] (of_ascii '' there'')], None)" for h
    by (simp add: final_stream_def tool_service_def hello_stream_def of_ascii_def Let_def)
  from unknown_tool_turn [OF p f t d, of "[49]"] obtain tool_msgs where
    h: "snd (process_stream_chat ?sv [49] []) = [] @ [AssistantDump (message ?c)] @ tool_msgs"
    and r: "list_all2 (tool_reply ?sv) [lookup_call (of_ascii ''{}'')] tool_msgs"
    and e: "fst (process_stream_chat ?sv [49] [])
        = [Start [49], ToolCall [49] searching_notice]
          @ fst (final_stream ?sv [49] ([] @ [AssistantDump (message ?c)] @ tool_msgs))
          @ error_events [49]
              (snd (final_stream ?sv [49] ([] @ [AssistantDump (message ?c)] @ tool_msgs)))
          @ [End [49]]"
    by blast
  from r obtain m where tm: "tool_msgs = [m]" and "tool_reply ?sv (lookup_call (of_ascii ''{}'')) m"
    by (auto simp: list_all2_Cons1)
  with n have m: "m = ToolMessage (of_ascii ''call_1'') (of_ascii ''lookup'')
           (dump_text (Text (unknown_tool_error (of_ascii ''lookup''))))"
    by (simp add: tool_reply_def lookup_call_def tool_service_def)
  from e have e': "fst (process_stream_chat ?sv [49] [])
      = [Start [49], ToolCall [49] searching_notice, Chunk [49] (of_ascii ''Hello''),
         Chunk [49] (of_ascii '' there''), End [49]]"
    by (simp add: s error_events_def)
  from h tm m e' n show ?thesis
    by (simp add: prod_eq_iff)
qed

text \<open>
  The specification as worded fails when the arguments of the unknown tool's call are not valid
  JSON: \<open>json.loads\<close> runs before the name is examined and raises, the turn yields an
  \<open>error\<close> event, no tool message is appended and the streaming call is not made.
\<close>

theorem unknown_tool_bad_arguments:
  "tc_name (lookup_call (of_ascii ''{'')) \<noteq> web_search
   \<and> process_stream_chat (tool_service (of_ascii ''{'')) [49] []
     = ([Start [49], ToolCall [49] searching_notice,
         Error [49] (api_error_msg JSONDecodeError),
         End [49]],
        [AssistantDump (message (tool_choice (of_ascii ''{'')))])"
proof -
  have n: "tc_name (lookup_call (of_ascii ''{'')) \<noteq> web_search"
    by (simp add: lookup_call_def web_search_def of_ascii_def)
  have d: "decode_braces (of_ascii ''{'')
      = Inl JSONDecodeError"
    by (simp add: decode_braces_def of_ascii_def)
  have "process_stream_chat (tool_service (of_ascii ''{'')) [49] []
     = ([Start [49], ToolCall [49] searching_notice,
         Error [49] (api_error_msg JSONDecodeError),
         End [49]],
        [AssistantDump (message (tool_choice (of_ascii ''{'')))])"
    by (simp add: process_stream_chat_def try_body_def tool_service_def tool_choice_def
        lookup_call_def d Let_def)
  with n show ?thesis by simp
qed

end
